theory Spec2Isabelle
  imports Complex_Main "HOL-Library.Sublist"
begin

section \<open>Transcode worker: pure helpers of container/index.js\<close>

subsection \<open>Rendering numbers and reading them back\<close>

text \<open>
  JavaScript renders an integer-valued number below \<open>10^21\<close> as its plain decimal
  digits, with a leading minus sign when negative. Widths, heights, bandwidths and the
  segment estimate of the worker are such numbers.
\<close>

definition digit_char :: "nat \<Rightarrow> char" where
  "digit_char d = ''0123456789'' ! d"

fun digits_of :: "nat \<Rightarrow> string" where
  "digits_of n = (if n < 10 then [digit_char n] else digits_of (n div 10) @ [digit_char (n mod 10)])"

declare digits_of.simps [simp del]

definition toString :: "int \<Rightarrow> string" where
  "toString n = (if n < 0 then CHR ''-'' # digits_of (nat (- n)) else digits_of (nat n))"

definition is_digit :: "char \<Rightarrow> bool" where
  "is_digit c = (c \<in> set ''0123456789'')"

definition digit_value :: "char \<Rightarrow> nat" where
  "digit_value c = length (takeWhile (\<lambda>d. d \<noteq> c) ''0123456789'')"

text \<open>
  \<open>parseInt\<close> on the catalog's bitrate strings: the longest prefix of decimal digits is
  read as a number and the rest (the unit suffix \<open>k\<close>) is ignored; with no leading
  digit the result is NaN, here \<open>None\<close>. Sign, leading blanks and the hexadecimal
  prefix of the full JavaScript function do not occur in these strings.
\<close>

definition parseInt :: "string \<Rightarrow> nat option" where
  "parseInt s =
     (let ds = takeWhile is_digit s
      in if ds = [] then None else Some (foldl (\<lambda>acc c. 10 * acc + digit_value c) 0 ds))"

subsection \<open>The rendition catalog and the planner\<close>

record resolution =
  name :: string
  width :: nat
  height :: nat
  bitrate :: string

definition RESOLUTIONS :: "resolution list" where
  "RESOLUTIONS =
    [\<lparr>name = ''144p'', width = 256, height = 144, bitrate = ''100k''\<rparr>,
     \<lparr>name = ''240p'', width = 426, height = 240, bitrate = ''300k''\<rparr>,
     \<lparr>name = ''360p'', width = 640, height = 360, bitrate = ''800k''\<rparr>,
     \<lparr>name = ''480p'', width = 854, height = 480, bitrate = ''1400k''\<rparr>,
     \<lparr>name = ''720p'', width = 1280, height = 720, bitrate = ''2800k''\<rparr>,
     \<lparr>name = ''1080p'', width = 1920, height = 1080, bitrate = ''4500k''\<rparr>,
     \<lparr>name = ''1440p'', width = 2560, height = 1440, bitrate = ''9000k''\<rparr>,
     \<lparr>name = ''2160p'', width = 3840, height = 2160, bitrate = ''12000k''\<rparr>,
     \<lparr>name = ''4320p'', width = 7680, height = 4320, bitrate = ''50000k''\<rparr>]"

definition getValidResolutions :: "nat \<Rightarrow> nat \<Rightarrow> resolution list" where
  "getValidResolutions w h = filter (\<lambda>resolution. width resolution \<le> w \<and> height resolution \<le> h) RESOLUTIONS"

subsection \<open>The output key prefix\<close>

text \<open>
  \<open>String.prototype.replace\<close> with a string pattern rewrites the first occurrence only
  and leaves a string without the pattern unchanged.
\<close>

fun replace_first :: "string \<Rightarrow> string \<Rightarrow> string \<Rightarrow> string" where
  "replace_first pat rep [] = (if pat = [] then rep else [])"
| "replace_first pat rep (c # cs) =
     (if prefix pat (c # cs) then rep @ drop (length pat) (c # cs)
      else c # replace_first pat rep cs)"

text \<open>\<open>key.split(".")[0]\<close>: the part of the key before its first dot.\<close>

definition split_dot_first :: "string \<Rightarrow> string" where
  "split_dot_first key = takeWhile (\<lambda>c. c \<noteq> CHR ''.'') key"

definition getFormattedKey :: "string \<Rightarrow> string" where
  "getFormattedKey key =
     replace_first ''//'' ''/'' (replace_first ''videos/'' '''' (split_dot_first key))"

subsection \<open>Segment padding\<close>

text \<open>
  The probed duration is a number of seconds, taken here as a real number; the rounding
  of the floating-point division is not modelled. \<open>Math.ceil(duration / 10)\<close> is then
  an integer and \<open>padding\<close> the length of its rendering.
\<close>

definition estimatedSegments :: "real \<Rightarrow> int" where
  "estimatedSegments duration = \<lceil>duration / 10\<rceil>"

definition padding :: "real \<Rightarrow> nat" where
  "padding duration = length (toString (estimatedSegments duration))"

text \<open>
  The number of decimal digits of a natural number, counted as the specification of the
  padding width does: one digit below ten, and one more for each further division by ten.
\<close>

fun decimal_digit_count :: "nat \<Rightarrow> nat" where
  "decimal_digit_count n = (if n < 10 then 1 else Suc (decimal_digit_count (n div 10)))"

declare decimal_digit_count.simps [simp del]

text \<open>
  The encoder receives the pattern \<open>{outputDir}/{name}_%0{padding}d.ts\<close> and fills in
  the segment index itself.
\<close>

definition hls_segment_filename :: "string \<Rightarrow> string \<Rightarrow> nat \<Rightarrow> string" where
  "hls_segment_filename outputDir nm pad =
     outputDir @ ''/'' @ nm @ ''_%0'' @ toString (int pad) @ ''d.ts''"

text \<open>
  Modelled from the spec: the expansion of the pattern by the media encoder, which is not
  part of the repository. The index is written in decimal and filled with zeros on the
  left up to the width named between \<open>%0\<close> and \<open>d\<close>.
\<close>

definition zero_pad :: "nat \<Rightarrow> nat \<Rightarrow> string" where
  "zero_pad w i = replicate (w - length (digits_of i)) (CHR ''0'') @ digits_of i"

fun expand_segment_pattern :: "string \<Rightarrow> nat \<Rightarrow> string" where
  "expand_segment_pattern [] i = []"
| "expand_segment_pattern (c # cs) i =
     (let ds = takeWhile is_digit cs; rest = dropWhile is_digit cs
      in if c = CHR ''%'' \<and> prefix ''0'' ds \<and> prefix ''d'' rest
         then zero_pad (case parseInt ds of None \<Rightarrow> 0 | Some w \<Rightarrow> w) i @ tl rest
         else c # expand_segment_pattern cs i)"

subsection \<open>The master playlist\<close>

fun join :: "string \<Rightarrow> string list \<Rightarrow> string" where
  "join sep [] = []"
| "join sep [x] = x"
| "join sep (x # y # ys) = x @ sep @ join sep (y # ys)"

definition masterPlaylist :: string where
  "masterPlaylist = ''#EXTM3U'' @ [CHR 0x0A] @ ''#EXT-X-VERSION:3'' @ [CHR 0x0A]"

text \<open>\<open>parseInt(resolution.bitrate) * 1000\<close> as the template literal prints it.\<close>

definition bandwidth :: "resolution \<Rightarrow> string" where
  "bandwidth resolution =
     (case parseInt (bitrate resolution) of
        None \<Rightarrow> ''NaN''
      | Some n \<Rightarrow> toString (int (n * 1000)))"

definition playlistEntry :: "resolution \<Rightarrow> string" where
  "playlistEntry resolution =
     (let resolutionString = toString (int (width resolution)) @ ''x'' @ toString (int (height resolution));
          playlistPath = name resolution @ ''/'' @ name resolution @ ''.m3u8''
      in ''#EXT-X-STREAM-INF:BANDWIDTH='' @ bandwidth resolution @ '',RESOLUTION='' @ resolutionString
           @ [CHR 0x0A] @ playlistPath)"

definition masterPlaylistContent :: "nat \<Rightarrow> nat \<Rightarrow> string" where
  "masterPlaylistContent w h =
     masterPlaylist @
     join [CHR 0x0A]
       (map playlistEntry
          (filter (\<lambda>resolution. width resolution \<le> w \<and> height resolution \<le> h) RESOLUTIONS))"

section \<open>Transcode worker: the job\<close>

text \<open>
  The worker talks to the object store, the prober, the encoder and the local file
  system. Their answers are the environment of a run; the calls the worker makes are
  recorded in order. An upload that the store accepted is \<open>Stored\<close>, one it refused is
  \<open>Rejected\<close>, and one that was still in flight when the process exited is \<open>Abandoned\<close>.
\<close>

record probe =
  duration :: real
  probe_width :: nat
  probe_height :: nat

datatype put_outcome = Stored | Rejected | Abandoned

datatype call =
    GetObject string
  | Ffprobe
  | Mkdir string
  | FfmpegRun string "string list"
  | Readdir string
  | PutObject string string put_outcome
  | WriteFile string string

record worker_env =
  fetch_ok :: bool
  probe_result :: "probe option"
  mkdir_ok :: bool
  ffmpeg_ok :: "string \<Rightarrow> bool"
  readdir :: "string \<Rightarrow> string list option"
  put_ok :: "string \<Rightarrow> bool"
  put_landed :: "string \<Rightarrow> bool"
  writeFile_ok :: bool

record outcome =
  calls :: "call list"
  exit_code :: nat

definition hlsFiles :: "resolution \<Rightarrow> string list \<Rightarrow> string list" where
  "hlsFiles resolution files =
     filter (\<lambda>file. prefix (name resolution) file \<and> (suffix ''.m3u8'' file \<or> suffix ''.ts'' file)) files"

definition object_key :: "string \<Rightarrow> resolution \<Rightarrow> string \<Rightarrow> string" where
  "object_key KEY resolution file =
     ''hls/'' @ getFormattedKey KEY @ ''/'' @ name resolution @ ''/'' @ file"

text \<open>
  \<open>uploadHLSFiles\<close>: the directory is listed (by the rendition just encoded), every
  matching file is sent at once, and the call succeeds when all uploads do. When one is
  refused the worker exits while the others may still be in flight; \<open>put_landed\<close> says
  which of them had reached the store by then.
\<close>

definition uploadHLSFiles :: "worker_env \<Rightarrow> string \<Rightarrow> string \<Rightarrow> resolution \<Rightarrow> call list \<times> bool" where
  "uploadHLSFiles env KEY outputDir resolution =
     (case readdir env (name resolution) of
        None \<Rightarrow> ([Readdir outputDir], False)
      | Some files \<Rightarrow>
          (let hls = hlsFiles resolution files;
               all_ok = list_all (\<lambda>file. put_ok env (object_key KEY resolution file)) hls
           in (Readdir outputDir #
                 map (\<lambda>file.
                        PutObject (object_key KEY resolution file) (outputDir @ ''/'' @ file)
                          (if \<not> put_ok env (object_key KEY resolution file) then Rejected
                           else if all_ok \<or> put_landed env (object_key KEY resolution file) then Stored
                           else Abandoned))
                     hls,
               all_ok)))"

definition ffmpeg_options :: "string \<Rightarrow> nat \<Rightarrow> resolution \<Rightarrow> string list" where
  "ffmpeg_options outputDir pad resolution =
     [''-c:v libx264'',
      ''-c:a aac'',
      ''-b:v '' @ bitrate resolution,
      ''-b:a 128k'',
      ''-vf scale='' @ toString (int (width resolution)) @ '':'' @ toString (int (height resolution)),
      ''-f hls'',
      ''-hls_time 10'',
      ''-hls_list_size 0'',
      ''-hls_segment_filename '' @ hls_segment_filename outputDir (name resolution) pad]"

text \<open>One pass of the rendition loop: encode, then upload on the encoder's end event.\<close>

definition transcode :: "worker_env \<Rightarrow> string \<Rightarrow> string \<Rightarrow> nat \<Rightarrow> resolution \<Rightarrow> call list \<times> bool" where
  "transcode env KEY outputDir pad resolution =
     (let run = FfmpegRun (outputDir @ ''/'' @ name resolution @ ''.m3u8'') (ffmpeg_options outputDir pad resolution)
      in if ffmpeg_ok env (name resolution)
         then (case uploadHLSFiles env KEY outputDir resolution of (cs, ok) \<Rightarrow> (run # cs, ok))
         else ([run], False))"

text \<open>
  The loop over the valid resolutions; \<open>False\<close> is the \<open>process.exit(1)\<close> of its catch
  block, after which nothing else runs.
\<close>

fun transcode_all :: "worker_env \<Rightarrow> string \<Rightarrow> string \<Rightarrow> nat \<Rightarrow> resolution list \<Rightarrow> call list \<times> bool" where
  "transcode_all env KEY outputDir pad [] = ([], True)"
| "transcode_all env KEY outputDir pad (resolution # rest) =
     (case transcode env KEY outputDir pad resolution of
        (cs, False) \<Rightarrow> (cs, False)
      | (cs, True) \<Rightarrow>
          (case transcode_all env KEY outputDir pad rest of (cs', ok) \<Rightarrow> (cs @ cs', ok)))"

definition master_key :: "string \<Rightarrow> string" where
  "master_key KEY = ''hls/'' @ getFormattedKey KEY @ ''/master.m3u8''"

text \<open>The part of \<open>main\<close> after the probe, with the list the rendition loop runs over.\<close>

definition run_job :: "worker_env \<Rightarrow> string \<Rightarrow> probe \<Rightarrow> resolution list \<Rightarrow> outcome" where
  "run_job env KEY p validResolutions =
     (let pad = padding (duration p);
          outputDir = ''hls_output'';
          start = [GetObject KEY, Ffprobe, Mkdir outputDir]
      in if \<not> mkdir_ok env then \<lparr>calls = start, exit_code = 1\<rparr>
         else
           (case transcode_all env KEY outputDir pad validResolutions of
              (cs, False) \<Rightarrow> \<lparr>calls = start @ cs, exit_code = 1\<rparr>
            | (cs, True) \<Rightarrow>
                (let masterPlaylistPath = outputDir @ ''/master.m3u8'';
                     write = WriteFile masterPlaylistPath (masterPlaylistContent (probe_width p) (probe_height p))
                 in if \<not> writeFile_ok env then \<lparr>calls = start @ cs @ [write], exit_code = 1\<rparr>
                    else if \<not> put_ok env (master_key KEY)
                    then \<lparr>calls = start @ cs @ [write, PutObject (master_key KEY) masterPlaylistPath Rejected],
                          exit_code = 1\<rparr>
                    else \<lparr>calls = start @ cs @ [write, PutObject (master_key KEY) masterPlaylistPath Stored],
                          exit_code = 0\<rparr>)))"

definition transcoder_main :: "worker_env \<Rightarrow> string \<Rightarrow> outcome" where
  "transcoder_main env KEY =
     (if \<not> fetch_ok env then \<lparr>calls = [GetObject KEY], exit_code = 1\<rparr>
      else
        (case probe_result env of
           None \<Rightarrow> \<lparr>calls = [GetObject KEY, Ffprobe], exit_code = 1\<rparr>
         | Some p \<Rightarrow> run_job env KEY p (getValidResolutions (probe_width p) (probe_height p))))"

text \<open>What a run leaves in the destination bucket, and what it did about the manifest.\<close>

fun published :: "call list \<Rightarrow> string list" where
  "published [] = []"
| "published (PutObject k f Stored # cs) = k # published cs"
| "published (c # cs) = published cs"

fun encoded :: "call list \<Rightarrow> string list" where
  "encoded [] = []"
| "encoded (FfmpegRun out opts # cs) = out # encoded cs"
| "encoded (c # cs) = encoded cs"

text \<open>The option lists the encoder was started with, in order.\<close>

fun encode_options :: "call list \<Rightarrow> string list list" where
  "encode_options [] = []"
| "encode_options (FfmpegRun out opts # cs) = opts # encode_options cs"
| "encode_options (c # cs) = encode_options cs"

fun manifest_call :: "string \<Rightarrow> call \<Rightarrow> bool" where
  "manifest_call KEY (WriteFile f t) = True"
| "manifest_call KEY (PutObject k f r) = (k = master_key KEY)"
| "manifest_call KEY c = False"

text \<open>
  A rendition goes through when the encoder succeeds, the directory can be listed and the
  store accepts each of its files.
\<close>

definition rendition_ok :: "worker_env \<Rightarrow> string \<Rightarrow> resolution \<Rightarrow> bool" where
  "rendition_ok env KEY resolution =
     (ffmpeg_ok env (name resolution) \<and>
      (case readdir env (name resolution) of
         None \<Rightarrow> False
       | Some files \<Rightarrow> list_all (\<lambda>file. put_ok env (object_key KEY resolution file)) (hlsFiles resolution files)))"

definition rendition_keys :: "worker_env \<Rightarrow> string \<Rightarrow> resolution \<Rightarrow> string list" where
  "rendition_keys env KEY resolution =
     (case readdir env (name resolution) of
        None \<Rightarrow> []
      | Some files \<Rightarrow> map (object_key KEY resolution) (hlsFiles resolution files))"

section \<open>Event dispatcher: consumer/src/index.ts\<close>

subsection \<open>JavaScript values of a parsed message body\<close>

datatype jsval =
    JUndefined
  | JNull
  | JBool bool
  | JNum int
  | JStr string
  | JArr "jsval list"
  | JObj "(string \<times> jsval) list"

datatype js_error = TypeError

text \<open>
  Reading a property throws on \<open>undefined\<close> and \<open>null\<close>. The names the dispatcher reads
  (\<open>Event\<close>, \<open>Records\<close>, \<open>s3\<close>, \<open>bucket\<close>, \<open>object\<close>, \<open>key\<close>, \<open>name\<close>) are own
  properties of parsed objects only; on arrays and primitive values they are undefined.
\<close>

fun get_prop :: "jsval \<Rightarrow> string \<Rightarrow> js_error + jsval" where
  "get_prop JUndefined k = Inl TypeError"
| "get_prop JNull k = Inl TypeError"
| "get_prop (JObj props) k = Inr (case map_of props k of None \<Rightarrow> JUndefined | Some v \<Rightarrow> v)"
| "get_prop v k = Inr JUndefined"

text \<open>
  The \<open>in\<close> operator throws on every value that is not an object; the two names tested
  with it (\<open>Service\<close>, \<open>Event\<close>) are never properties of an array.
\<close>

fun in_op :: "string \<Rightarrow> jsval \<Rightarrow> js_error + bool" where
  "in_op k (JObj props) = Inr (map_of props k \<noteq> None)"
| "in_op k (JArr xs) = Inr False"
| "in_op k v = Inl TypeError"

fun truthy :: "jsval \<Rightarrow> bool" where
  "truthy JUndefined = False"
| "truthy JNull = False"
| "truthy (JBool b) = b"
| "truthy (JNum n) = (n \<noteq> 0)"
| "truthy (JStr s) = (s \<noteq> [])"
| "truthy v = True"

text \<open>\<open>for (const record of ...)\<close>: arrays and strings can be iterated, nothing else here.\<close>

fun iterate :: "jsval \<Rightarrow> js_error + jsval list" where
  "iterate (JArr xs) = Inr xs"
| "iterate (JStr s) = Inr (map (\<lambda>c. JStr [c]) s)"
| "iterate v = Inl TypeError"

subsection \<open>Messages, collaborators and calls\<close>

record message =
  Body :: "string option"
  MessageId :: "string option"
  ReceiptHandle :: "string option"

datatype qcall =
    ReceiveMessage
  | DeleteMessage "string option"
  | RunTask string jsval

text \<open>
  The runtime and the collaborators of the dispatcher: \<open>JSON.parse\<close> (\<open>None\<close> when it
  throws), \<open>path.extname\<close>, \<open>toUpperCase\<close>, and whether the n-th task launch of the run
  (counted from 0) succeeds. A failing delete is caught inside \<open>deleteMessageFromQueue\<close>
  and changes nothing else, so it has no entry.
\<close>

record consumer_env =
  JSON_parse :: "string \<Rightarrow> jsval option"
  extname :: "string \<Rightarrow> string"
  toUpperCase :: "string \<Rightarrow> string"
  runTask_ok :: "nat \<Rightarrow> bool"

definition ACCEPTABLE_FORMATS :: "string list" where
  "ACCEPTABLE_FORMATS = [''.MP4'', ''.MOV'', ''.AVI'', ''.WMV'', ''.FLV'', ''.WEBM'']"

fun is_RunTask :: "qcall \<Rightarrow> bool" where
  "is_RunTask (RunTask k b) = True"
| "is_RunTask c = False"

fun is_DeleteMessage :: "qcall \<Rightarrow> bool" where
  "is_DeleteMessage (DeleteMessage h) = True"
| "is_DeleteMessage c = False"

definition launched :: "qcall list \<Rightarrow> nat" where
  "launched tr = length (filter is_RunTask tr)"

definition deleted :: "qcall list \<Rightarrow> nat" where
  "deleted tr = length (filter is_DeleteMessage tr)"

definition received :: "qcall list \<Rightarrow> nat" where
  "received tr = length (filter (\<lambda>c. c = ReceiveMessage) tr)"

subsection \<open>processMessage\<close>

text \<open>
  The checks at the head of the record loop: the result is the key and the bucket name of
  a record to launch, \<open>None\<close> for a record the loop skips with \<open>continue\<close>, or the
  exception thrown by a destructuring or by \<open>path.extname\<close> on a key that is no string.
\<close>

definition validateRecord :: "consumer_env \<Rightarrow> jsval \<Rightarrow> js_error + (string \<times> jsval) option" where
  "validateRecord env rcd =
     (case get_prop rcd ''s3'' of
        Inl e \<Rightarrow> Inl e
      | Inr s3 \<Rightarrow>
     (case get_prop s3 ''bucket'' of
        Inl e \<Rightarrow> Inl e
      | Inr bucket \<Rightarrow>
     (case get_prop s3 ''object'' of
        Inl e \<Rightarrow> Inl e
      | Inr obj \<Rightarrow>
     (case get_prop obj ''key'' of
        Inl e \<Rightarrow> Inl e
      | Inr key \<Rightarrow>
     (case (if bucket = JUndefined \<or> bucket = JNull then Inr JUndefined else get_prop bucket ''name'') of
        Inl e \<Rightarrow> Inl e
      | Inr bucket_name \<Rightarrow>
          if \<not> truthy bucket_name then Inr None
          else if \<not> truthy key then Inr None
          else
            (case key of
               JStr k \<Rightarrow>
                 (let fileExtension = toUpperCase env (extname env k)
                  in if fileExtension \<notin> set ACCEPTABLE_FORMATS then Inr None
                     else Inr (Some (k, bucket_name)))
             | _ \<Rightarrow> Inl TypeError))))))"

text \<open>
  The \<open>try\<close> block at the end of the loop body: the task is launched and, when the launch
  succeeded, the message is deleted; a failed launch is logged and the loop goes on.
\<close>

definition launchTask :: "consumer_env \<Rightarrow> message \<Rightarrow> qcall list \<Rightarrow> string \<Rightarrow> jsval \<Rightarrow> qcall list" where
  "launchTask env msg tr k bucket_name =
     (if runTask_ok env (launched tr)
      then tr @ [RunTask k bucket_name, DeleteMessage (ReceiptHandle msg)]
      else tr @ [RunTask k bucket_name])"

fun processRecords :: "consumer_env \<Rightarrow> message \<Rightarrow> qcall list \<Rightarrow> jsval list \<Rightarrow> qcall list \<times> (js_error + unit)" where
  "processRecords env msg tr [] = (tr, Inr ())"
| "processRecords env msg tr (rcd # rest) =
     (case validateRecord env rcd of
        Inl e \<Rightarrow> (tr, Inl e)
      | Inr None \<Rightarrow> processRecords env msg tr rest
      | Inr (Some (k, bucket_name)) \<Rightarrow> processRecords env msg (launchTask env msg tr k bucket_name) rest)"

text \<open>\<open>"Service" in event && "Event" in event && event.Event === "s3:TestEvent"\<close>\<close>

definition is_test_event :: "jsval \<Rightarrow> js_error + bool" where
  "is_test_event event =
     (case in_op ''Service'' event of
        Inl e \<Rightarrow> Inl e
      | Inr False \<Rightarrow> Inr False
      | Inr True \<Rightarrow>
          (case in_op ''Event'' event of
             Inl e \<Rightarrow> Inl e
           | Inr False \<Rightarrow> Inr False
           | Inr True \<Rightarrow>
               (case get_prop event ''Event'' of
                  Inl e \<Rightarrow> Inl e
                | Inr v \<Rightarrow> Inr (v = JStr ''s3:TestEvent''))))"

definition processMessage :: "consumer_env \<Rightarrow> qcall list \<Rightarrow> message \<Rightarrow> qcall list \<times> (js_error + unit)" where
  "processMessage env tr msg =
     (case Body msg of
        None \<Rightarrow> (tr, Inr ())
      | Some body \<Rightarrow>
          if body = [] then (tr, Inr ())
          else
            (case JSON_parse env body of
               None \<Rightarrow> (tr, Inr ())
             | Some event \<Rightarrow>
                 (case is_test_event event of
                    Inl e \<Rightarrow> (tr, Inl e)
                  | Inr True \<Rightarrow> (tr @ [DeleteMessage (ReceiptHandle msg)], Inr ())
                  | Inr False \<Rightarrow>
                      (case get_prop event ''Records'' of
                         Inl e \<Rightarrow> (tr, Inl e)
                       | Inr records \<Rightarrow>
                           (case iterate records of
                              Inl e \<Rightarrow> (tr, Inl e)
                            | Inr rs \<Rightarrow> processRecords env msg tr rs)))))"

subsection \<open>The receive loop\<close>

text \<open>
  The loop never ends by itself; a run is observed over the answers the queue gave to
  its first receive calls. An answer is an error, no message list, or a list.
\<close>

datatype receive_result = ReceiveError | Received "message list option"

fun processMessages :: "consumer_env \<Rightarrow> qcall list \<Rightarrow> message list \<Rightarrow> qcall list \<times> (js_error + unit)" where
  "processMessages env tr [] = (tr, Inr ())"
| "processMessages env tr (m # ms) =
     (case processMessage env tr m of
        (tr', Inl e) \<Rightarrow> (tr', Inl e)
      | (tr', Inr u) \<Rightarrow> processMessages env tr' ms)"

text \<open>One turn of \<open>while (true)\<close>; whatever is thrown inside is caught and logged.\<close>

fun iteration :: "consumer_env \<Rightarrow> qcall list \<Rightarrow> receive_result \<Rightarrow> qcall list" where
  "iteration env tr ReceiveError = tr @ [ReceiveMessage]"
| "iteration env tr (Received None) = tr @ [ReceiveMessage]"
| "iteration env tr (Received (Some Messages)) = fst (processMessages env (tr @ [ReceiveMessage]) Messages)"

fun consumer_main :: "consumer_env \<Rightarrow> qcall list \<Rightarrow> receive_result list \<Rightarrow> qcall list" where
  "consumer_main env tr [] = tr"
| "consumer_main env tr (r # rs) = consumer_main env (iteration env tr r) rs"

text \<open>
  The record type the source declares for the parsed body (\<open>S3Event\<close>): an object whose
  \<open>s3\<close> is an object holding a \<open>bucket\<close> object with a string \<open>name\<close> and an
  \<open>object\<close> object with a string \<open>key\<close>.
\<close>

fun prop_of :: "jsval \<Rightarrow> string \<Rightarrow> jsval" where
  "prop_of (JObj props) k = (case map_of props k of None \<Rightarrow> JUndefined | Some v \<Rightarrow> v)"
| "prop_of v k = JUndefined"

fun is_JObj :: "jsval \<Rightarrow> bool" where
  "is_JObj (JObj props) = True"
| "is_JObj v = False"

fun is_JStr :: "jsval \<Rightarrow> bool" where
  "is_JStr (JStr s) = True"
| "is_JStr v = False"

definition is_S3EventRecord :: "jsval \<Rightarrow> bool" where
  "is_S3EventRecord rcd =
     (is_JObj rcd \<and> is_JObj (prop_of rcd ''s3'') \<and>
      is_JObj (prop_of (prop_of rcd ''s3'') ''bucket'') \<and>
      is_JStr (prop_of (prop_of (prop_of rcd ''s3'') ''bucket'') ''name'') \<and>
      is_JObj (prop_of (prop_of rcd ''s3'') ''object'') \<and>
      is_JStr (prop_of (prop_of (prop_of rcd ''s3'') ''object'') ''key''))"

text \<open>The records of a message that pass the checks, and the calls expected for them.\<close>

definition accepted :: "consumer_env \<Rightarrow> jsval list \<Rightarrow> (string \<times> jsval) list" where
  "accepted env rs =
     List.map_filter (\<lambda>rcd. case validateRecord env rcd of Inr (Some kb) \<Rightarrow> Some kb | _ \<Rightarrow> None) rs"

fun per_record_calls :: "(nat \<Rightarrow> bool) \<Rightarrow> string option \<Rightarrow> nat \<Rightarrow> (string \<times> jsval) list \<Rightarrow> qcall list" where
  "per_record_calls ok handle n [] = []"
| "per_record_calls ok handle n ((k, b) # rest) =
     RunTask k b # (if ok n then [DeleteMessage handle] else []) @ per_record_calls ok handle (Suc n) rest"

section \<open>Example environments\<close>

text \<open>
  A job on a 640x360 source of 95 seconds whose second rendition fails in the encoder,
  and the same job on a source too small for the catalog.
\<close>

definition demo_probe :: probe where
  "demo_probe = \<lparr>duration = 95, probe_width = 640, probe_height = 360\<rparr>"

definition demo_env :: worker_env where
  "demo_env =
     \<lparr>fetch_ok = True, probe_result = Some demo_probe, mkdir_ok = True,
      ffmpeg_ok = (\<lambda>n. n \<noteq> ''240p''),
      readdir = (\<lambda>n. Some [''144p.m3u8'', ''144p_00.ts'', ''notes.txt'']),
      put_ok = (\<lambda>k. True), put_landed = (\<lambda>k. True), writeFile_ok = True\<rparr>"

definition tiny_env :: worker_env where
  "tiny_env = demo_env\<lparr>probe_result := Some \<lparr>duration = 4, probe_width = 200, probe_height = 100\<rparr>\<rparr>"

text \<open>The first job again with an encoder that never fails.\<close>

definition all_ok_env :: worker_env where
  "all_ok_env = demo_env\<lparr>ffmpeg_ok := (\<lambda>n. True)\<rparr>"

text \<open>
  A dispatcher whose parser knows two bodies, the storage service's test notification
  and an ingest notification with four records, and rejects every other body; its
  fourth task launch fails.
\<close>

definition s3_record :: "string \<Rightarrow> string \<Rightarrow> jsval" where
  "s3_record b k =
     JObj [(''s3'', JObj [(''bucket'', JObj [(''name'', JStr b)]), (''object'', JObj [(''key'', JStr k)])])]"

definition ascii_upper :: "char \<Rightarrow> char" where
  "ascii_upper c =
     (case map_of (zip ''abcdefghijklmnopqrstuvwxyz'' ''ABCDEFGHIJKLMNOPQRSTUVWXYZ'') c of
        None \<Rightarrow> c
      | Some u \<Rightarrow> u)"

definition demo_records :: "jsval list" where
  "demo_records =
     [s3_record ''uploads'' ''videos/a.mp4'', s3_record ''uploads'' ''videos/notes.txt'',
      s3_record ''uploads'' ''videos/c.mov'', s3_record ''uploads'' ''videos/d.webm'']"

definition demo_consumer_env :: consumer_env where
  "demo_consumer_env =
     \<lparr>JSON_parse =
        (\<lambda>s. if s = ''test-notification''
              then Some (JObj [(''Service'', JStr ''Amazon S3''), (''Event'', JStr ''s3:TestEvent'')])
              else if s = ''ingest-notification''
              then Some (JObj [(''Records'', JArr demo_records)])
              else None),
      extname = dropWhile (\<lambda>c. c \<noteq> CHR ''.''),
      toUpperCase = map ascii_upper,
      runTask_ok = (\<lambda>n. n \<noteq> 3)\<rparr>"

definition demo_message :: "string option \<Rightarrow> message" where
  "demo_message b = \<lparr>Body = b, MessageId = Some ''m-1'', ReceiptHandle = Some ''rh-1''\<rparr>"

section \<open>Properties of the planner, the key namer and the padding\<close>

subsection \<open>Decimal rendering\<close>

lemma digits_of_nonempty: "digits_of n \<noteq> []"
  by (subst digits_of.simps) simp

lemma digits_of_0: "digits_of 0 = ''0''"
  by (simp add: digits_of.simps digit_char_def)

lemma digits_of_bounds:
  "0 < n \<Longrightarrow> 10 ^ (length (digits_of n) - 1) \<le> n \<and> n < 10 ^ length (digits_of n)"
proof (induction n rule: digits_of.induct)
  case (1 n)
  show ?case
  proof (cases "n < 10")
    case True
    with "1.prems" show ?thesis by (subst (1 2) digits_of.simps) simp
  next
    case False
    define m where "m = n div 10"
    define L where "L = length (digits_of m)"
    have mpos: "0 < m" using False by (simp add: m_def)
    have ih: "10 ^ (L - 1) \<le> m \<and> m < 10 ^ L"
      using "1.IH" [OF False] mpos by (simp add: m_def L_def)
    have Lpos: "0 < L" using digits_of_nonempty [of m] by (simp add: L_def)
    have len: "length (digits_of n) = Suc L"
      using False by (subst digits_of.simps) (simp add: m_def L_def)
    have "10 ^ L = 10 * 10 ^ (L - 1)" using Lpos by (cases L) simp_all
    also have "\<dots> \<le> 10 * m" using ih by simp
    also have "\<dots> \<le> n" by (simp add: m_def)
    finally have lo: "10 ^ L \<le> n" .
    have "n < 10 * (m + 1)" by (simp add: m_def)
    also have "\<dots> \<le> 10 * 10 ^ L" using ih by simp
    finally have hi: "n < 10 ^ Suc L" by simp
    show ?thesis using lo hi by (simp add: len)
  qed
qed

subsection \<open>RenditionPlanner\<close>

lemma RESOLUTIONS_ascending:
  "sorted_wrt (\<lambda>a b. width a < width b \<and> height a < height b) RESOLUTIONS"
  by (simp add: RESOLUTIONS_def)

lemma RESOLUTIONS_distinct: "distinct RESOLUTIONS"
  by (simp add: RESOLUTIONS_def)

text \<open>
  Claim C2. For every probed width and height the planner returns exactly the catalog
  entries whose width and height both fit, as a subsequence of the catalog in the
  catalog's ascending order, each entry once. The planner is a total function of the two
  dimensions: it has no error result and the same probe gives the same plan.
\<close>

theorem getValidResolutions_plan:
  "getValidResolutions w h = filter (\<lambda>r. width r \<le> w \<and> height r \<le> h) RESOLUTIONS
   \<and> set (getValidResolutions w h) = {r. r \<in> set RESOLUTIONS \<and> width r \<le> w \<and> height r \<le> h}
   \<and> subseq (getValidResolutions w h) RESOLUTIONS
   \<and> sorted_wrt (\<lambda>a b. width a < width b \<and> height a < height b) (getValidResolutions w h)
   \<and> distinct (getValidResolutions w h)"
  unfolding getValidResolutions_def
  using RESOLUTIONS_ascending RESOLUTIONS_distinct by (auto intro: sorted_wrt_filter)

subsection \<open>KeyNamer\<close>

lemma replace_first_absent:
  "pat \<noteq> [] \<Longrightarrow> \<not> sublist pat s \<Longrightarrow> replace_first pat rep s = s"
proof (induction s)
  case Nil
  then show ?case by simp
next
  case (Cons c cs)
  have "\<not> prefix pat (c # cs)" using Cons.prems(2) by auto
  moreover have "\<not> sublist pat cs" using Cons.prems(2) by (auto simp: sublist_Cons_right)
  ultimately show ?case using Cons by simp
qed

lemma set_replace_first: "set (replace_first pat rep s) \<subseteq> set s \<union> set rep"
proof (induction s)
  case Nil
  then show ?case by auto
next
  case (Cons c cs)
  then show ?case by (auto dest: in_set_dropD)
qed

lemma split_dot_first_no_dot: "CHR ''.'' \<notin> set s \<Longrightarrow> split_dot_first s = s"
  by (auto simp: split_dot_first_def)

lemma no_dot_split_dot_first: "CHR ''.'' \<notin> set (split_dot_first s)"
  unfolding split_dot_first_def by (auto dest: set_takeWhileD)

lemma no_dot_getFormattedKey: "CHR ''.'' \<notin> set (getFormattedKey k)"
proof -
  have "set (getFormattedKey k) \<subseteq> set (split_dot_first k) \<union> set ''/''"
    unfolding getFormattedKey_def
    using set_replace_first [of "''//''" "''/''" "replace_first ''videos/'' [] (split_dot_first k)"]
          set_replace_first [of "''videos/''" "[]" "split_dot_first k"]
    by auto
  then show ?thesis using no_dot_split_dot_first [of k] by auto
qed

lemma getFormattedKey_fixpoint:
  assumes "\<not> sublist ''videos/'' (getFormattedKey k)" and "\<not> sublist ''//'' (getFormattedKey k)"
  shows "getFormattedKey (getFormattedKey k) = getFormattedKey k"
proof -
  have "split_dot_first (getFormattedKey k) = getFormattedKey k"
    by (rule split_dot_first_no_dot) (rule no_dot_getFormattedKey)
  then show ?thesis
    using assms by (subst getFormattedKey_def) (simp add: replace_first_absent)
qed

text \<open>
  Claim C3, as stated, asks that the output prefix be idempotent. It is not: each of the
  two replacements rewrites one occurrence only, so a key with the folder marker twice
  loses one marker per application.
\<close>

theorem getFormattedKey_not_idempotent:
  "getFormattedKey (getFormattedKey ''videos/videos/a'') \<noteq> getFormattedKey ''videos/videos/a''"
  by (simp add: getFormattedKey_def split_dot_first_def)

text \<open>
  Claim C3, amended. The output prefix is a total function of the key: the key is cut at
  its first dot, the first occurrence of \<open>videos/\<close> is removed, then the first
  occurrence of \<open>//\<close> becomes \<open>/\<close>. The result holds no dot. Applying the function
  again changes nothing when the result holds neither \<open>videos/\<close> nor \<open>//\<close>, and
  \<open>videos//clips/demo.mp4\<close> is mapped to \<open>/clips/demo\<close>.
\<close>

theorem getFormattedKey_amended:
  "getFormattedKey k =
     replace_first ''//'' ''/'' (replace_first ''videos/'' [] (takeWhile (\<lambda>c. c \<noteq> CHR ''.'') k))
   \<and> CHR ''.'' \<notin> set (getFormattedKey k)
   \<and> (\<not> sublist ''videos/'' (getFormattedKey k) \<and> \<not> sublist ''//'' (getFormattedKey k)
        \<longrightarrow> getFormattedKey (getFormattedKey k) = getFormattedKey k)
   \<and> getFormattedKey ''videos//clips/demo.mp4'' = ''/clips/demo''"
proof -
  have "getFormattedKey ''videos//clips/demo.mp4'' = ''/clips/demo''"
    by (simp add: getFormattedKey_def split_dot_first_def)
  then show ?thesis
    using no_dot_getFormattedKey [of k] getFormattedKey_fixpoint [of k]
    by (simp add: getFormattedKey_def split_dot_first_def)
qed

theorem getFormattedKey_amended_witness:
  "\<not> sublist ''videos/'' (getFormattedKey ''videos//clips/demo.mp4'')
   \<and> \<not> sublist ''//'' (getFormattedKey ''videos//clips/demo.mp4'')
   \<and> getFormattedKey (getFormattedKey ''videos//clips/demo.mp4'') = ''/clips/demo''"
proof -
  have v: "getFormattedKey ''videos//clips/demo.mp4'' = ''/clips/demo''"
    by (simp add: getFormattedKey_def split_dot_first_def)
  have a: "\<not> sublist ''videos/'' ''/clips/demo'' \<and> \<not> sublist ''//'' ''/clips/demo''"
    by (simp add: sublist_Cons_right)
  show ?thesis
    using getFormattedKey_amended [of "''videos//clips/demo.mp4''"] a by (simp add: v)
qed

subsection \<open>Segment padding\<close>

lemma estimatedSegments_nonneg: "0 \<le> d \<Longrightarrow> 0 \<le> estimatedSegments d"
  by (simp add: estimatedSegments_def)

lemma padding_digits: "0 \<le> d \<Longrightarrow> padding d = length (digits_of (nat (estimatedSegments d)))"
  using estimatedSegments_nonneg [of d] by (simp add: padding_def toString_def)

lemma estimatedSegments_95: "estimatedSegments 95 = 10"
  by (simp add: estimatedSegments_def)

lemma padding_95: "padding 95 = 2"
  by (simp add: padding_digits estimatedSegments_95 digits_of.simps)

lemma expand_segment_pattern_95:
  "expand_segment_pattern (hls_segment_filename ''hls_output'' ''144p'' 2) 0 = ''hls_output/144p_00.ts''"
  by (simp add: hls_segment_filename_def toString_def digits_of.simps digit_char_def is_digit_def
      zero_pad_def parseInt_def digit_value_def)

section \<open>Properties of the transcode job\<close>

subsection \<open>The rendition loop\<close>

lemma snd_uploadHLSFiles:
  "snd (uploadHLSFiles env KEY outputDir r) =
     (case readdir env (name r) of
        None \<Rightarrow> False
      | Some files \<Rightarrow> list_all (\<lambda>file. put_ok env (object_key KEY r file)) (hlsFiles r files))"
  by (simp add: uploadHLSFiles_def Let_def split: option.split)

lemma snd_transcode: "snd (transcode env KEY outputDir pad r) = rendition_ok env KEY r"
  using snd_uploadHLSFiles [of env KEY outputDir r]
  by (cases "uploadHLSFiles env KEY outputDir r") (simp add: transcode_def rendition_ok_def Let_def)

lemma transcode_all_ok:
  "\<forall>r \<in> set plan. rendition_ok env KEY r \<Longrightarrow>
   transcode_all env KEY outputDir pad plan =
     (concat (map (\<lambda>r. fst (transcode env KEY outputDir pad r)) plan), True)"
proof (induction plan)
  case Nil
  then show ?case by simp
next
  case (Cons r rest)
  have ok: "snd (transcode env KEY outputDir pad r)"
    using Cons.prems by (simp add: snd_transcode)
  obtain cs where cs: "transcode env KEY outputDir pad r = (cs, True)"
    using ok by (cases "transcode env KEY outputDir pad r") simp
  show ?case using Cons cs by simp
qed

lemma transcode_all_fails:
  "i < length plan \<Longrightarrow> \<forall>j<i. rendition_ok env KEY (plan ! j) \<Longrightarrow> \<not> rendition_ok env KEY (plan ! i) \<Longrightarrow>
   transcode_all env KEY outputDir pad plan =
     (concat (map (\<lambda>r. fst (transcode env KEY outputDir pad r)) (take (Suc i) plan)), False)"
proof (induction plan arbitrary: i)
  case Nil
  then show ?case by simp
next
  case (Cons r rest)
  show ?case
  proof (cases i)
    case 0
    then have "\<not> snd (transcode env KEY outputDir pad r)"
      using Cons.prems(3) by (simp add: snd_transcode)
    then obtain cs where "transcode env KEY outputDir pad r = (cs, False)"
      by (cases "transcode env KEY outputDir pad r") simp
    then show ?thesis using 0 by simp
  next
    case (Suc k)
    have "rendition_ok env KEY ((r # rest) ! 0)" using Cons.prems(2) Suc by blast
    then have "snd (transcode env KEY outputDir pad r)" by (simp add: snd_transcode)
    then obtain cs where cs: "transcode env KEY outputDir pad r = (cs, True)"
      by (cases "transcode env KEY outputDir pad r") simp
    have k: "k < length rest" using Cons.prems(1) Suc by simp
    have before: "\<forall>j<k. rendition_ok env KEY (rest ! j)"
    proof (intro allI impI)
      fix j assume "j < k"
      then have "Suc j < i" using Suc by simp
      with Cons.prems(2) have "rendition_ok env KEY ((r # rest) ! Suc j)" by blast
      then show "rendition_ok env KEY (rest ! j)" by simp
    qed
    have at: "\<not> rendition_ok env KEY (rest ! k)" using Cons.prems(3) Suc by simp
    show ?thesis using Cons.IH [OF k before at] cs Suc by simp
  qed
qed

subsection \<open>What the calls of a rendition are\<close>

lemma published_append: "published (xs @ ys) = published xs @ published ys"
  by (induction xs rule: published.induct) simp_all

lemma encoded_append: "encoded (xs @ ys) = encoded xs @ encoded ys"
  by (induction xs rule: encoded.induct) simp_all

lemma published_concat: "published (concat xss) = concat (map published xss)"
  by (induction xss) (simp_all add: published_append)

lemma encoded_concat: "encoded (concat xss) = concat (map encoded xss)"
  by (induction xss) (simp_all add: encoded_append)

lemma published_puts_Stored:
  "\<forall>file \<in> set files. h file = Stored \<Longrightarrow>
   published (map (\<lambda>file. PutObject (f file) (g file) (h file)) files) = map f files"
  by (induction files) simp_all

lemma encoded_puts: "encoded (map (\<lambda>file. PutObject (f file) (g file) (h file)) files) = []"
  by (induction files) simp_all

lemma published_transcode_ok:
  assumes "rendition_ok env KEY r"
  shows "published (fst (transcode env KEY outputDir pad r)) = rendition_keys env KEY r"
proof -
  obtain files where files: "readdir env (name r) = Some files"
    using assms by (auto simp: rendition_ok_def split: option.splits)
  have all: "list_all (\<lambda>file. put_ok env (object_key KEY r file)) (hlsFiles r files)"
    using assms files by (simp add: rendition_ok_def)
  define h where "h = (\<lambda>file. if \<not> put_ok env (object_key KEY r file) then Rejected
        else if list_all (\<lambda>file. put_ok env (object_key KEY r file)) (hlsFiles r files)
                \<or> put_landed env (object_key KEY r file) then Stored
        else Abandoned)"
  have stored: "\<forall>file \<in> set (hlsFiles r files). h file = Stored"
    using all by (auto simp: h_def list_all_iff)
  have "fst (transcode env KEY outputDir pad r) =
          FfmpegRun (outputDir @ ''/'' @ name r @ ''.m3u8'') (ffmpeg_options outputDir pad r) #
          Readdir outputDir #
          map (\<lambda>file. PutObject (object_key KEY r file) (outputDir @ ''/'' @ file) (h file)) (hlsFiles r files)"
    using assms files by (simp add: transcode_def uploadHLSFiles_def rendition_ok_def Let_def h_def)
  then show ?thesis
    using published_puts_Stored [OF stored, of "object_key KEY r" "\<lambda>file. outputDir @ ''/'' @ file"] files
    by (simp add: rendition_keys_def)
qed

lemma encoded_transcode:
  "encoded (fst (transcode env KEY outputDir pad r)) = [outputDir @ ''/'' @ name r @ ''.m3u8'']"
  by (simp add: transcode_def uploadHLSFiles_def Let_def encoded_puts split: option.split)

lemma name_not_master: "r \<in> set RESOLUTIONS \<Longrightarrow> name r @ ''/'' @ f \<noteq> ''master.m3u8''"
  by (auto simp: RESOLUTIONS_def)

lemma object_key_not_master: "r \<in> set RESOLUTIONS \<Longrightarrow> object_key KEY r f \<noteq> master_key KEY"
  using name_not_master [of r f] by (simp add: object_key_def master_key_def)

lemma no_manifest_call_transcode:
  assumes "r \<in> set RESOLUTIONS"
  shows "\<forall>c \<in> set (fst (transcode env KEY outputDir pad r)). \<not> manifest_call KEY c"
  using object_key_not_master [OF assms, of KEY]
  by (auto simp: transcode_def uploadHLSFiles_def Let_def split: option.splits)

lemma set_getValidResolutions: "set (getValidResolutions w h) \<subseteq> set RESOLUTIONS"
  by (auto simp: getValidResolutions_def)

subsection \<open>Fail-fast\<close>

lemma run_job_fails:
  assumes "mkdir_ok env" and "i < length plan"
    and "\<forall>j<i. rendition_ok env KEY (plan ! j)" and "\<not> rendition_ok env KEY (plan ! i)"
  shows "run_job env KEY p plan =
           \<lparr>calls = [GetObject KEY, Ffprobe, Mkdir ''hls_output''] @
                    concat (map (\<lambda>r. fst (transcode env KEY ''hls_output'' (padding (duration p)) r))
                              (take (Suc i) plan)),
            exit_code = 1\<rparr>"
  using assms(1) transcode_all_fails [OF assms(2,3,4), where outputDir = "''hls_output''" and pad = "padding (duration p)"]
  by (simp add: run_job_def Let_def)

lemma run_job_succeeds:
  assumes "mkdir_ok env" and "\<forall>r \<in> set plan. rendition_ok env KEY r"
    and "writeFile_ok env" and "put_ok env (master_key KEY)"
  shows "run_job env KEY p plan =
           \<lparr>calls = [GetObject KEY, Ffprobe, Mkdir ''hls_output''] @
                    concat (map (\<lambda>r. fst (transcode env KEY ''hls_output'' (padding (duration p)) r)) plan) @
                    [WriteFile ''hls_output/master.m3u8'' (masterPlaylistContent (probe_width p) (probe_height p)),
                     PutObject (master_key KEY) ''hls_output/master.m3u8'' Stored],
            exit_code = 0\<rparr>"
  using assms(1,3,4) transcode_all_ok [OF assms(2), where outputDir = "''hls_output''" and pad = "padding (duration p)"]
  by (simp add: run_job_def Let_def)

lemma run_job_builds_manifest:
  assumes "mkdir_ok env" and "\<forall>r \<in> set plan. rendition_ok env KEY r"
  shows "WriteFile ''hls_output/master.m3u8'' (masterPlaylistContent (probe_width p) (probe_height p))
           \<in> set (calls (run_job env KEY p plan))"
  using assms(1) transcode_all_ok [OF assms(2), where outputDir = "''hls_output''" and pad = "padding (duration p)"]
  by (simp add: run_job_def Let_def)

text \<open>
  Claim C1. Let the plan of a job be the valid resolutions of its probe and let the
  rendition at index \<open>i\<close> be the first that does not go through: its encode fails, or
  the directory listing or one of its uploads does. Then the worker exits with status 1;
  the encoder has been started for the renditions up to \<open>i\<close> and for no later one; the
  master manifest is neither written nor uploaded; and the objects of every rendition
  before \<open>i\<close> are in the bucket, where nothing removes them.
\<close>

theorem fail_fast_no_manifest:
  assumes "fetch_ok env" and "probe_result env = Some p" and "mkdir_ok env"
    and "plan = getValidResolutions (probe_width p) (probe_height p)"
    and "i < length plan"
    and "\<forall>j<i. rendition_ok env KEY (plan ! j)"
    and "\<not> rendition_ok env KEY (plan ! i)"
  shows "exit_code (transcoder_main env KEY) = 1
       \<and> encoded (calls (transcoder_main env KEY)) =
           map (\<lambda>r. ''hls_output/'' @ name r @ ''.m3u8'') (take (Suc i) plan)
       \<and> (\<forall>c \<in> set (calls (transcoder_main env KEY)). \<not> manifest_call KEY c)
       \<and> prefix (concat (map (rendition_keys env KEY) (take i plan)))
           (published (calls (transcoder_main env KEY)))"
proof -
  define T where "T = (\<lambda>r. fst (transcode env KEY ''hls_output'' (padding (duration p)) r))"
  have main: "transcoder_main env KEY =
      \<lparr>calls = [GetObject KEY, Ffprobe, Mkdir ''hls_output''] @ concat (map T (take (Suc i) plan)),
       exit_code = 1\<rparr>"
    using assms(1,2,4) run_job_fails [OF assms(3,5,6,7), where p = p]
    by (simp add: transcoder_main_def T_def)
  have exit: "exit_code (transcoder_main env KEY) = 1"
    by (simp add: main)
  have "encoded (concat (map T (take (Suc i) plan))) =
          concat (map (\<lambda>r. [''hls_output/'' @ name r @ ''.m3u8'']) (take (Suc i) plan))"
    by (simp add: encoded_concat T_def encoded_transcode comp_def)
  also have "\<dots> = map (\<lambda>r. ''hls_output/'' @ name r @ ''.m3u8'') (take (Suc i) plan)"
    by (induction "take (Suc i) plan") simp_all
  finally have enc: "encoded (calls (transcoder_main env KEY)) =
      map (\<lambda>r. ''hls_output/'' @ name r @ ''.m3u8'') (take (Suc i) plan)"
    by (simp add: main encoded_append)
  have in_catalog: "\<forall>r \<in> set (take (Suc i) plan). r \<in> set RESOLUTIONS"
    using set_getValidResolutions [of "probe_width p" "probe_height p"] assms(4)
    by (auto dest: in_set_takeD)
  have nomf: "\<forall>c \<in> set (calls (transcoder_main env KEY)). \<not> manifest_call KEY c"
    using in_catalog no_manifest_call_transcode [where KEY = KEY and env = env and outputDir = "''hls_output''" and pad = "padding (duration p)"]
    by (auto simp: main T_def)
  have split: "take (Suc i) plan = take i plan @ [plan ! i]"
    using assms(5) by (simp add: take_Suc_conv_app_nth)
  have before: "\<forall>r \<in> set (take i plan). rendition_ok env KEY r"
  proof
    fix r assume "r \<in> set (take i plan)"
    then obtain j where "j < length (take i plan)" and "take i plan ! j = r"
      by (auto simp: in_set_conv_nth)
    then have "j < i" and "plan ! j = r" by simp_all
    with assms(6) show "rendition_ok env KEY r" by blast
  qed
  have "map (\<lambda>r. published (T r)) (take i plan) = map (rendition_keys env KEY) (take i plan)"
    using before by (simp add: T_def published_transcode_ok)
  then have keys: "concat (map (\<lambda>r. published (T r)) (take i plan)) =
      concat (map (rendition_keys env KEY) (take i plan))"
    by (rule arg_cong)
  have "published (calls (transcoder_main env KEY)) =
      concat (map (rendition_keys env KEY) (take i plan)) @ published (T (plan ! i))"
    by (simp add: main split published_append published_concat comp_def keys)
  then have pub: "prefix (concat (map (rendition_keys env KEY) (take i plan)))
      (published (calls (transcoder_main env KEY)))"
    by simp
  show ?thesis using exit enc nomf pub by blast
qed

subsection \<open>The empty plan\<close>

lemma getValidResolutions_empty_iff: "getValidResolutions w h = [] \<longleftrightarrow> w < 256 \<or> h < 144"
  by (auto simp: getValidResolutions_def RESOLUTIONS_def)

lemma masterPlaylistContent_empty:
  "getValidResolutions w h = [] \<Longrightarrow> masterPlaylistContent w h = masterPlaylist"
  by (simp add: masterPlaylistContent_def getValidResolutions_def)

text \<open>
  Claim C9. When no catalog entry fits the probed dimensions (the width is below 256 or
  the height below 144) the plan is empty and the job is not a failure: with the source
  fetched and probed and the output directory made, the encoder is never started, the
  manifest written is the two header lines alone, and once the store accepts it the
  worker ends with status 0.
\<close>

theorem empty_plan_succeeds:
  assumes "fetch_ok env" and "probe_result env = Some p" and "mkdir_ok env"
    and "writeFile_ok env" and "put_ok env (master_key KEY)"
    and "getValidResolutions (probe_width p) (probe_height p) = []"
  shows "transcoder_main env KEY =
           \<lparr>calls = [GetObject KEY, Ffprobe, Mkdir ''hls_output'',
                     WriteFile ''hls_output/master.m3u8''
                       (''#EXTM3U'' @ [CHR 0x0A] @ ''#EXT-X-VERSION:3'' @ [CHR 0x0A]),
                     PutObject (''hls/'' @ getFormattedKey KEY @ ''/master.m3u8'') ''hls_output/master.m3u8'' Stored],
            exit_code = 0\<rparr>
       \<and> encoded (calls (transcoder_main env KEY)) = []
       \<and> published (calls (transcoder_main env KEY)) = [''hls/'' @ getFormattedKey KEY @ ''/master.m3u8'']
       \<and> (probe_width p < 256 \<or> probe_height p < 144)"
proof -
  have "run_job env KEY p [] =
      \<lparr>calls = [GetObject KEY, Ffprobe, Mkdir ''hls_output'',
                WriteFile ''hls_output/master.m3u8'' (masterPlaylistContent (probe_width p) (probe_height p)),
                PutObject (master_key KEY) ''hls_output/master.m3u8'' Stored],
       exit_code = 0\<rparr>"
    using run_job_succeeds [OF assms(3) _ assms(4,5), where plan = "[]" and p = p] by simp
  then have main: "transcoder_main env KEY =
      \<lparr>calls = [GetObject KEY, Ffprobe, Mkdir ''hls_output'',
                WriteFile ''hls_output/master.m3u8'' (''#EXTM3U'' @ [CHR 0x0A] @ ''#EXT-X-VERSION:3'' @ [CHR 0x0A]),
                PutObject (''hls/'' @ getFormattedKey KEY @ ''/master.m3u8'') ''hls_output/master.m3u8'' Stored],
       exit_code = 0\<rparr>"
    using assms(1,2,6) masterPlaylistContent_empty [OF assms(6)]
    by (simp add: transcoder_main_def masterPlaylist_def master_key_def)
  have dims: "probe_width p < 256 \<or> probe_height p < 144"
    using assms(6) by (simp add: getValidResolutions_empty_iff)
  show ?thesis
    unfolding main using dims by simp
qed

subsection \<open>Example runs\<close>

lemma plan3: "getValidResolutions 640 360 =
   [\<lparr>name = ''144p'', width = 256, height = 144, bitrate = ''100k''\<rparr>,
     \<lparr>name = ''240p'', width = 426, height = 240, bitrate = ''300k''\<rparr>,
     \<lparr>name = ''360p'', width = 640, height = 360, bitrate = ''800k''\<rparr>]"
  by (simp add: getValidResolutions_def RESOLUTIONS_def)

theorem fail_fast_no_manifest_witness:
  "exit_code (transcoder_main demo_env ''videos/demo.mp4'') = 1
   \<and> encoded (calls (transcoder_main demo_env ''videos/demo.mp4'')) = [''hls_output/144p.m3u8'', ''hls_output/240p.m3u8'']
   \<and> filter (manifest_call ''videos/demo.mp4'') (calls (transcoder_main demo_env ''videos/demo.mp4'')) = []
   \<and> prefix [''hls/demo/144p/144p.m3u8'', ''hls/demo/144p/144p_00.ts'']
        (published (calls (transcoder_main demo_env ''videos/demo.mp4'')))"
proof -
  let ?plan = "getValidResolutions (probe_width demo_probe) (probe_height demo_probe)"
  have plan: "?plan = getValidResolutions 640 360" by (simp add: demo_probe_def)
  have h1: "fetch_ok demo_env" by (simp add: demo_env_def)
  have h2: "probe_result demo_env = Some demo_probe" by (simp add: demo_env_def)
  have h3: "mkdir_ok demo_env" by (simp add: demo_env_def)
  have h5: "1 < length ?plan" by (simp add: plan plan3)
  have ok0: "rendition_ok demo_env ''videos/demo.mp4'' (?plan ! 0)"
    by (simp add: plan plan3 rendition_ok_def demo_env_def list_all_iff)
  have h6: "\<forall>j<1. rendition_ok demo_env ''videos/demo.mp4'' (?plan ! j)"
    using ok0 by simp
  have h7: "\<not> rendition_ok demo_env ''videos/demo.mp4'' (?plan ! 1)"
    by (simp add: plan plan3 rendition_ok_def demo_env_def)
  have key: "getFormattedKey ''videos/demo.mp4'' = ''demo''"
    by (simp add: getFormattedKey_def split_dot_first_def)
  have keys: "rendition_keys demo_env ''videos/demo.mp4'' (?plan ! 0) =
      [''hls/demo/144p/144p.m3u8'', ''hls/demo/144p/144p_00.ts'']"
    by (simp add: plan plan3 rendition_keys_def demo_env_def hlsFiles_def object_key_def key suffix_to_prefix)
  show ?thesis
    using fail_fast_no_manifest [OF h1 h2 h3 refl h5 h6 h7] keys
    by (simp add: plan plan3 filter_empty_conv)
qed

theorem empty_plan_succeeds_witness:
  "getValidResolutions 200 100 = []
   \<and> exit_code (transcoder_main tiny_env ''videos/demo.mp4'') = 0
   \<and> calls (transcoder_main tiny_env ''videos/demo.mp4'') =
       [GetObject ''videos/demo.mp4'', Ffprobe, Mkdir ''hls_output'',
        WriteFile ''hls_output/master.m3u8'' (''#EXTM3U'' @ [CHR 0x0A] @ ''#EXT-X-VERSION:3'' @ [CHR 0x0A]),
        PutObject ''hls/demo/master.m3u8'' ''hls_output/master.m3u8'' Stored]"
proof -
  let ?p = "\<lparr>duration = 4, probe_width = 200, probe_height = 100\<rparr>"
  have h1: "fetch_ok tiny_env" by (simp add: tiny_env_def demo_env_def)
  have h2: "probe_result tiny_env = Some ?p" by (simp add: tiny_env_def demo_env_def)
  have h3: "mkdir_ok tiny_env" by (simp add: tiny_env_def demo_env_def)
  have h4: "writeFile_ok tiny_env" by (simp add: tiny_env_def demo_env_def)
  have h5: "put_ok tiny_env (master_key ''videos/demo.mp4'')" by (simp add: tiny_env_def demo_env_def)
  have e: "getValidResolutions 200 100 = []" by (simp add: getValidResolutions_def RESOLUTIONS_def)
  have h6: "getValidResolutions (probe_width ?p) (probe_height ?p) = []" using e by simp
  have key: "getFormattedKey ''videos/demo.mp4'' = ''demo''"
    by (simp add: getFormattedKey_def split_dot_first_def)
  show ?thesis
    using empty_plan_succeeds [OF h1 h2 h3 h4 h5 h6] e by (simp add: key)
qed

subsection \<open>The master manifest\<close>

lemma toString_int: "toString (int n) = digits_of n"
  by (simp add: toString_def)

lemma digit_cases: "d < 10 \<Longrightarrow> d \<in> {0, 1, 2, 3, 4, 5, 6, 7, 8, 9 :: nat}"
  by auto

lemma digit_char_is_digit: "d < 10 \<Longrightarrow> is_digit (digit_char d)"
  using digit_cases [of d] by (auto simp: is_digit_def digit_char_def)

lemma digit_value_digit_char: "d < 10 \<Longrightarrow> digit_value (digit_char d) = d"
  using digit_cases [of d] by (auto simp: digit_value_def digit_char_def)

lemma digits_of_all_digits: "\<forall>c \<in> set (digits_of n). is_digit c"
proof (induction n rule: digits_of.induct)
  case (1 n)
  show ?case
  proof (cases "n < 10")
    case True
    then show ?thesis by (subst digits_of.simps) (simp add: digit_char_is_digit)
  next
    case False
    then show ?thesis
      using "1.IH" by (subst digits_of.simps) (simp add: digit_char_is_digit)
  qed
qed

lemma foldl_digits_of: "foldl (\<lambda>acc c. 10 * acc + digit_value c) 0 (digits_of n) = n"
proof (induction n rule: digits_of.induct)
  case (1 n)
  show ?case
  proof (cases "n < 10")
    case True
    then show ?thesis by (subst digits_of.simps) (simp add: digit_value_digit_char)
  next
    case False
    then show ?thesis
      using "1.IH" by (subst digits_of.simps) (simp add: digit_value_digit_char)
  qed
qed

text \<open>Reading back what was rendered: \<open>parseInt\<close> of a number followed by its unit.\<close>

lemma parseInt_digits_of: "\<not> is_digit c \<Longrightarrow> parseInt (digits_of n @ c # rest) = Some n"
proof -
  assume c: "\<not> is_digit c"
  have "takeWhile is_digit (digits_of n @ c # rest) = digits_of n"
    using digits_of_all_digits [of n] c by (simp add: takeWhile_append2)
  then show ?thesis
    by (simp add: parseInt_def digits_of_nonempty foldl_digits_of)
qed

lemma bandwidth_kbps: "bitrate r = digits_of kbps @ ''k'' \<Longrightarrow> bandwidth r = digits_of (kbps * 1000)"
  using parseInt_digits_of [of "CHR ''k''" kbps "[]"] toString_int [of "kbps * 1000"]
  by (simp add: bandwidth_def is_digit_def)

lemma playlistEntry_kbps:
  "bitrate r = digits_of kbps @ ''k'' \<Longrightarrow>
   playlistEntry r =
     ''#EXT-X-STREAM-INF:BANDWIDTH='' @ digits_of (kbps * 1000) @ '',RESOLUTION='' @
     digits_of (width r) @ ''x'' @ digits_of (height r) @ [CHR 0x0A] @
     name r @ ''/'' @ name r @ ''.m3u8''"
  by (simp add: playlistEntry_def bandwidth_kbps toString_int)

lemma catalog_bitrates:
  "map bitrate RESOLUTIONS =
     map (\<lambda>kbps. digits_of kbps @ ''k'') [100, 300, 800, 1400, 2800, 4500, 9000, 12000, 50000]"
  by (simp add: RESOLUTIONS_def digits_of.simps digit_char_def)

lemma catalog_bitrate_kbps: "r \<in> set RESOLUTIONS \<Longrightarrow> \<exists>kbps. bitrate r = digits_of kbps @ ''k''"
proof -
  assume "r \<in> set RESOLUTIONS"
  then have "bitrate r \<in> set (map bitrate RESOLUTIONS)" by simp
  then show ?thesis unfolding catalog_bitrates by auto
qed

lemma playlistEntry_480p:
  "playlistEntry \<lparr>name = ''480p'', width = 854, height = 480, bitrate = ''1400k''\<rparr> =
     ''#EXT-X-STREAM-INF:BANDWIDTH=1400000,RESOLUTION=854x480'' @ [CHR 0x0A] @ ''480p/480p.m3u8''"
  by (simp add: playlistEntry_def bandwidth_def parseInt_def is_digit_def digit_value_def
      toString_def digits_of.simps digit_char_def)

text \<open>
  Claim C4. When every planned rendition has gone through, the worker writes the master
  manifest, and its text is the two header lines followed by the entries of the planned
  renditions in plan order, joined by line feeds, one entry for each. The entry of a
  rendition whose bitrate string is the number \<open>kbps\<close> with the unit \<open>k\<close> reads
  \<open>BANDWIDTH\<close> as \<open>kbps * 1000\<close>, \<open>RESOLUTION\<close> as width \<open>x\<close> height, and on
  the next line the path \<open>name/name.m3u8\<close>; every catalog bitrate is such a string, and
  \<open>1400k\<close> gives \<open>BANDWIDTH=1400000\<close>.
\<close>

theorem master_manifest_entries:
  assumes "fetch_ok env" and "probe_result env = Some p" and "mkdir_ok env"
    and "plan = getValidResolutions (probe_width p) (probe_height p)"
    and "\<forall>r \<in> set plan. rendition_ok env KEY r"
  shows "WriteFile ''hls_output/master.m3u8'' (masterPlaylistContent (probe_width p) (probe_height p))
           \<in> set (calls (transcoder_main env KEY))
       \<and> masterPlaylistContent (probe_width p) (probe_height p) =
           ''#EXTM3U'' @ [CHR 0x0A] @ ''#EXT-X-VERSION:3'' @ [CHR 0x0A] @
           join [CHR 0x0A] (map playlistEntry plan)
       \<and> length (map playlistEntry plan) = length plan
       \<and> (\<forall>r \<in> set plan. \<exists>kbps.
             bitrate r = digits_of kbps @ ''k'' \<and>
             playlistEntry r =
               ''#EXT-X-STREAM-INF:BANDWIDTH='' @ digits_of (kbps * 1000) @ '',RESOLUTION='' @
               digits_of (width r) @ ''x'' @ digits_of (height r) @ [CHR 0x0A] @
               name r @ ''/'' @ name r @ ''.m3u8'')
       \<and> playlistEntry \<lparr>name = ''480p'', width = 854, height = 480, bitrate = ''1400k''\<rparr> =
           ''#EXT-X-STREAM-INF:BANDWIDTH=1400000,RESOLUTION=854x480'' @ [CHR 0x0A] @ ''480p/480p.m3u8''"
proof -
  have written: "WriteFile ''hls_output/master.m3u8'' (masterPlaylistContent (probe_width p) (probe_height p))
      \<in> set (calls (transcoder_main env KEY))"
    using assms(1,2,4) run_job_builds_manifest [OF assms(3,5), where p = p]
    by (simp add: transcoder_main_def)
  have content: "masterPlaylistContent (probe_width p) (probe_height p) =
      ''#EXTM3U'' @ [CHR 0x0A] @ ''#EXT-X-VERSION:3'' @ [CHR 0x0A] @ join [CHR 0x0A] (map playlistEntry plan)"
    by (simp add: assms(4) masterPlaylistContent_def masterPlaylist_def getValidResolutions_def)
  have entries: "\<forall>r \<in> set plan. \<exists>kbps.
      bitrate r = digits_of kbps @ ''k'' \<and>
      playlistEntry r =
        ''#EXT-X-STREAM-INF:BANDWIDTH='' @ digits_of (kbps * 1000) @ '',RESOLUTION='' @
        digits_of (width r) @ ''x'' @ digits_of (height r) @ [CHR 0x0A] @
        name r @ ''/'' @ name r @ ''.m3u8''"
  proof
    fix r assume "r \<in> set plan"
    then have "r \<in> set RESOLUTIONS"
      using set_getValidResolutions [of "probe_width p" "probe_height p"] assms(4) by auto
    then obtain kbps where k: "bitrate r = digits_of kbps @ ''k''"
      using catalog_bitrate_kbps by blast
    from playlistEntry_kbps [OF k] k
    show "\<exists>kbps. bitrate r = digits_of kbps @ ''k'' \<and>
      playlistEntry r =
        ''#EXT-X-STREAM-INF:BANDWIDTH='' @ digits_of (kbps * 1000) @ '',RESOLUTION='' @
        digits_of (width r) @ ''x'' @ digits_of (height r) @ [CHR 0x0A] @
        name r @ ''/'' @ name r @ ''.m3u8''"
      by blast
  qed
  show ?thesis
    using written content entries playlistEntry_480p by simp
qed

theorem master_manifest_entries_witness:
  "WriteFile ''hls_output/master.m3u8''
     (''#EXTM3U'' @ [CHR 0x0A] @ ''#EXT-X-VERSION:3'' @ [CHR 0x0A] @
      ''#EXT-X-STREAM-INF:BANDWIDTH=100000,RESOLUTION=256x144'' @ [CHR 0x0A] @ ''144p/144p.m3u8'' @ [CHR 0x0A] @
      ''#EXT-X-STREAM-INF:BANDWIDTH=300000,RESOLUTION=426x240'' @ [CHR 0x0A] @ ''240p/240p.m3u8'' @ [CHR 0x0A] @
      ''#EXT-X-STREAM-INF:BANDWIDTH=800000,RESOLUTION=640x360'' @ [CHR 0x0A] @ ''360p/360p.m3u8'')
     \<in> set (calls (transcoder_main all_ok_env ''videos/demo.mp4''))"
proof -
  let ?plan = "getValidResolutions (probe_width demo_probe) (probe_height demo_probe)"
  have plan: "?plan =
     [\<lparr>name = ''144p'', width = 256, height = 144, bitrate = ''100k''\<rparr>,
      \<lparr>name = ''240p'', width = 426, height = 240, bitrate = ''300k''\<rparr>,
      \<lparr>name = ''360p'', width = 640, height = 360, bitrate = ''800k''\<rparr>]"
    by (simp add: demo_probe_def getValidResolutions_def RESOLUTIONS_def)
  have h1: "fetch_ok all_ok_env" by (simp add: all_ok_env_def demo_env_def)
  have h2: "probe_result all_ok_env = Some demo_probe" by (simp add: all_ok_env_def demo_env_def)
  have h3: "mkdir_ok all_ok_env" by (simp add: all_ok_env_def demo_env_def)
  have h5: "\<forall>r \<in> set ?plan. rendition_ok all_ok_env ''videos/demo.mp4'' r"
    by (simp add: plan rendition_ok_def all_ok_env_def demo_env_def list_all_iff)
  have e: "map playlistEntry ?plan =
     [''#EXT-X-STREAM-INF:BANDWIDTH=100000,RESOLUTION=256x144'' @ [CHR 0x0A] @ ''144p/144p.m3u8'',
      ''#EXT-X-STREAM-INF:BANDWIDTH=300000,RESOLUTION=426x240'' @ [CHR 0x0A] @ ''240p/240p.m3u8'',
      ''#EXT-X-STREAM-INF:BANDWIDTH=800000,RESOLUTION=640x360'' @ [CHR 0x0A] @ ''360p/360p.m3u8'']"
    by (simp add: plan playlistEntry_def bandwidth_def parseInt_def is_digit_def digit_value_def
        toString_def digits_of.simps digit_char_def)
  from master_manifest_entries [OF h1 h2 h3 refl h5]
  have "WriteFile ''hls_output/master.m3u8'' (masterPlaylistContent (probe_width demo_probe) (probe_height demo_probe))
           \<in> set (calls (transcoder_main all_ok_env ''videos/demo.mp4''))"
   and "masterPlaylistContent (probe_width demo_probe) (probe_height demo_probe) =
           ''#EXTM3U'' @ [CHR 0x0A] @ ''#EXT-X-VERSION:3'' @ [CHR 0x0A] @ join [CHR 0x0A] (map playlistEntry ?plan)"
    by blast+
  then show ?thesis by (simp add: e)
qed

section \<open>Properties of the event dispatcher\<close>

subsection \<open>Counting calls\<close>

lemma launched_append: "launched (xs @ ys) = launched xs + launched ys"
  by (simp add: launched_def)

lemma deleted_append: "deleted (xs @ ys) = deleted xs + deleted ys"
  by (simp add: deleted_def)

lemma received_append: "received (xs @ ys) = received xs + received ys"
  by (simp add: received_def)

lemma received_launchTask: "received (launchTask env msg tr k b) = received tr"
  by (simp add: launchTask_def received_def)

lemma received_processRecords: "received (fst (processRecords env msg tr rs)) = received tr"
proof (induction rs arbitrary: tr)
  case Nil
  then show ?case by simp
next
  case (Cons r rs)
  then show ?case
    by (simp add: received_launchTask split: sum.split option.split prod.split)
qed

lemma received_DeleteMessage: "received (tr @ [DeleteMessage h]) = received tr"
  by (simp add: received_def)

lemma received_processMessage: "received (fst (processMessage env tr msg)) = received tr"
  by (simp add: processMessage_def received_processRecords received_DeleteMessage
      split: option.split sum.split bool.split)

lemma received_processMessages: "received (fst (processMessages env tr ms)) = received tr"
proof (induction ms arbitrary: tr)
  case Nil
  then show ?case by simp
next
  case (Cons m ms)
  obtain tr' res where step: "processMessage env tr m = (tr', res)"
    by (cases "processMessage env tr m")
  have "received tr' = received tr"
    using received_processMessage [of env tr m] by (simp add: step)
  then show ?case
    using Cons.IH [of tr'] by (simp add: step split: sum.split)
qed

lemma received_iteration: "received (iteration env tr r) = Suc (received tr)"
proof (cases r)
  case ReceiveError
  then show ?thesis by (simp add: received_def)
next
  case (Received ms)
  then show ?thesis
    by (cases ms) (simp_all add: received_processMessages, simp_all add: received_def)
qed

text \<open>The loop asks the queue again after every answer, whatever the answer held.\<close>

lemma received_consumer_main: "received (consumer_main env tr rs) = received tr + length rs"
  by (induction rs arbitrary: tr) (simp_all add: received_iteration)

subsection \<open>Messages that are dropped or acknowledged at once\<close>

lemma processMessage_unparsed:
  "Body msg = Some body \<Longrightarrow> JSON_parse env body = None \<Longrightarrow> processMessage env tr msg = (tr, Inr ())"
  by (simp add: processMessage_def)

lemma processMessage_no_body:
  "Body msg = None \<or> Body msg = Some [] \<Longrightarrow> processMessage env tr msg = (tr, Inr ())"
  by (auto simp: processMessage_def)

text \<open>
  Claim C5. A message whose body parses to an object with a \<open>Service\<close> property and an
  \<open>Event\<close> property equal to \<open>s3:TestEvent\<close> makes the dispatcher issue exactly one
  call, the deletion of that message with its receipt handle: one delete more than
  before, and no task launch.
\<close>

theorem test_event_deleted_once:
  assumes "Body msg = Some body" and "body \<noteq> []"
    and "JSON_parse env body = Some (JObj props)"
    and "map_of props ''Service'' = Some service"
    and "map_of props ''Event'' = Some (JStr ''s3:TestEvent'')"
  shows "processMessage env tr msg = (tr @ [DeleteMessage (ReceiptHandle msg)], Inr ())
       \<and> deleted (fst (processMessage env tr msg)) = deleted tr + 1
       \<and> launched (fst (processMessage env tr msg)) = launched tr"
proof -
  have test: "is_test_event (JObj props) = Inr True"
    using assms(4,5) by (simp add: is_test_event_def)
  have run: "processMessage env tr msg = (tr @ [DeleteMessage (ReceiptHandle msg)], Inr ())"
    using assms(1,2,3) test by (simp add: processMessage_def)
  show ?thesis
    by (simp add: run deleted_def launched_def)
qed

text \<open>
  Claim C6. A message whose body is not valid JSON makes the dispatcher issue no call at
  all: no delete, so the message stays on the queue, and no launch. Processing returns
  normally, the messages received with it are processed next, and the loop goes on to
  its next receive: over any further answers of the queue it issues one receive call
  for each.
\<close>

theorem malformed_body_left_on_queue:
  assumes "Body msg = Some body" and "JSON_parse env body = None"
  shows "processMessage env tr msg = (tr, Inr ())
       \<and> processMessages env tr (msg # others) = processMessages env tr others
       \<and> consumer_main env tr (Received (Some [msg]) # rest) = consumer_main env (tr @ [ReceiveMessage]) rest
       \<and> deleted (consumer_main env tr [Received (Some [msg])]) = deleted tr
       \<and> launched (consumer_main env tr [Received (Some [msg])]) = launched tr
       \<and> received (consumer_main env tr (Received (Some [msg]) # rest)) = received tr + 1 + length rest"
proof -
  have step: "\<And>t. processMessage env t msg = (t, Inr ())"
    using assms by (rule processMessage_unparsed)
  show ?thesis
    by (simp add: step received_consumer_main received_append deleted_append launched_append)
       (simp add: received_def deleted_def launched_def)
qed

text \<open>
  Claim C10. A message without a body, or with an empty one, makes the dispatcher issue
  no call at all: no delete and no launch. Processing returns normally and the loop goes
  on to its next receive, issuing one receive call for each further answer of the queue.
\<close>

theorem missing_body_left_on_queue:
  assumes "Body msg = None \<or> Body msg = Some []"
  shows "processMessage env tr msg = (tr, Inr ())
       \<and> processMessages env tr (msg # others) = processMessages env tr others
       \<and> consumer_main env tr (Received (Some [msg]) # rest) = consumer_main env (tr @ [ReceiveMessage]) rest
       \<and> deleted (consumer_main env tr [Received (Some [msg])]) = deleted tr
       \<and> launched (consumer_main env tr [Received (Some [msg])]) = launched tr
       \<and> received (consumer_main env tr (Received (Some [msg]) # rest)) = received tr + 1 + length rest"
proof -
  have step: "\<And>t. processMessage env t msg = (t, Inr ())"
    using assms by (rule processMessage_no_body)
  show ?thesis
    by (simp add: step received_consumer_main received_append deleted_append launched_append)
       (simp add: received_def deleted_def launched_def)
qed

subsection \<open>Records of an ingest message\<close>

lemma get_prop_JObj: "is_JObj v \<Longrightarrow> get_prop v k = Inr (prop_of v k)"
  by (cases v) simp_all

lemma is_JObj_defined: "is_JObj v \<Longrightarrow> v \<noteq> JUndefined \<and> v \<noteq> JNull"
  by (cases v) simp_all

lemma S3EventRecord_validates:
  assumes "is_S3EventRecord r"
  shows "\<exists>v. validateRecord env r = Inr v"
proof -
  define s3 where "s3 = prop_of r ''s3''"
  define bucket where "bucket = prop_of s3 ''bucket''"
  define obj where "obj = prop_of s3 ''object''"
  have shape: "is_JObj r" "is_JObj s3" "is_JObj bucket" "is_JObj obj"
    and strs: "is_JStr (prop_of bucket ''name'')" "is_JStr (prop_of obj ''key'')"
    using assms by (simp_all add: is_S3EventRecord_def s3_def bucket_def obj_def)
  obtain n where n: "prop_of bucket ''name'' = JStr n"
    using strs(1) by (cases "prop_of bucket ''name''") simp_all
  obtain k where k: "prop_of obj ''key'' = JStr k"
    using strs(2) by (cases "prop_of obj ''key''") simp_all
  have g1: "get_prop r ''s3'' = Inr s3"
    using shape(1) by (simp add: get_prop_JObj s3_def)
  have g2: "get_prop s3 ''bucket'' = Inr bucket"
    using shape(2) by (simp add: get_prop_JObj bucket_def)
  have g3: "get_prop s3 ''object'' = Inr obj"
    using shape(2) by (simp add: get_prop_JObj obj_def)
  have g4: "get_prop obj ''key'' = Inr (JStr k)"
    using shape(4) by (simp add: get_prop_JObj k)
  have g5: "get_prop bucket ''name'' = Inr (JStr n)"
    using shape(3) by (simp add: get_prop_JObj n)
  show ?thesis
    using is_JObj_defined [OF shape(3)]
    by (simp add: validateRecord_def g1 g2 g3 g4 g5 Let_def)
qed

lemma launched_launchTask: "launched (launchTask env msg tr k b) = Suc (launched tr)"
  by (simp add: launchTask_def launched_def)

lemma launchTask_calls:
  "launchTask env msg tr k b =
     tr @ RunTask k b # (if runTask_ok env (launched tr) then [DeleteMessage (ReceiptHandle msg)] else [])"
  by (simp add: launchTask_def)

lemma processRecords_per_record:
  "\<forall>r \<in> set rs. is_S3EventRecord r \<Longrightarrow>
   processRecords env msg tr rs =
     (tr @ per_record_calls (runTask_ok env) (ReceiptHandle msg) (launched tr) (accepted env rs), Inr ())"
proof (induction rs arbitrary: tr)
  case Nil
  then show ?case by (simp add: accepted_def)
next
  case (Cons r rs)
  obtain v where v: "validateRecord env r = Inr v"
    using S3EventRecord_validates [of r env] Cons.prems by auto
  have rest: "\<forall>r \<in> set rs. is_S3EventRecord r" using Cons.prems by simp
  show ?case
  proof (cases v)
    case None
    then show ?thesis
      using Cons.IH [OF rest, of tr] v by (simp add: accepted_def)
  next
    case (Some kb)
    obtain k b where kb: "kb = (k, b)" by (cases kb)
    have acc: "accepted env (r # rs) = (k, b) # accepted env rs"
      using v Some kb by (simp add: accepted_def)
    show ?thesis
      using Cons.IH [OF rest, of "launchTask env msg tr k b"] v Some kb
      by (simp add: acc launched_launchTask) (simp add: launchTask_calls)
  qed
qed

lemma launched_per_record_calls: "launched (per_record_calls ok h n xs) = length xs"
  by (induction ok h n xs rule: per_record_calls.induct) (simp_all add: launched_def)

lemma upt_0_Suc: "[0..<Suc m] = 0 # map Suc [0..<m]"
  by (simp add: upt_rec [of 0 "Suc m"] map_Suc_upt del: upt_Suc)

lemma deleted_per_record_calls:
  "deleted (per_record_calls ok h n xs) = length (filter (\<lambda>i. ok (n + i)) [0..<length xs])"
proof (induction ok h n xs rule: per_record_calls.induct)
  case (1 ok h n)
  then show ?case by (simp add: deleted_def)
next
  case (2 ok h n k b rest)
  have "length (filter (\<lambda>i. ok (n + i)) [0..<length ((k, b) # rest)]) =
        (if ok n then 1 else 0) + length (filter (\<lambda>i. ok (Suc n + i)) [0..<length rest])"
    by (simp add: upt_0_Suc filter_map comp_def del: upt_Suc)
  moreover have "deleted (per_record_calls ok h n ((k, b) # rest)) =
        (if ok n then 1 else 0) + deleted (per_record_calls ok h (Suc n) rest)"
    by (simp add: deleted_def)
  ultimately show ?case using "2.IH" by simp
qed

lemma per_record_calls_all_ok:
  "\<forall>i<length xs. ok (n + i) \<Longrightarrow>
   per_record_calls ok h n xs = concat (map (\<lambda>(k, b). [RunTask k b, DeleteMessage h]) xs)"
proof (induction ok h n xs rule: per_record_calls.induct)
  case (1 ok h n)
  then show ?case by simp
next
  case (2 ok h n k b rest)
  have now: "ok n" using "2.prems" by (auto dest: spec [of _ 0])
  have later: "\<forall>i<length rest. ok (Suc n + i)"
  proof (intro allI impI)
    fix i assume "i < length rest"
    then have "Suc i < length ((k, b) # rest)" by simp
    with "2.prems" have "ok (n + Suc i)" by blast
    then show "ok (Suc n + i)" by simp
  qed
  show ?case using "2.IH" [OF later] now by simp
qed

text \<open>
  Claim C7. Take an ingest message whose records have the shape of the declared event
  type, and let its accepted records be those with a bucket name, a key and an accepted
  extension. The dispatcher launches one task for each accepted record, in order, and
  issues the delete call directly after each launch that succeeded and after no other:
  a failed launch is followed by the launch for the next accepted record. So the number
  of launches is the number of accepted records and the number of deletes is the number
  of successful launches; when all \<open>n\<close> launches succeed the delete call is issued \<open>n\<close>
  times, once after each launch.
\<close>

theorem delete_per_launched_record:
  assumes "Body msg = Some body" and "body \<noteq> []"
    and "JSON_parse env body = Some event"
    and "is_test_event event = Inr False"
    and "get_prop event ''Records'' = Inr (JArr rs)"
    and "\<forall>r \<in> set rs. is_S3EventRecord r"
  shows "processMessage env tr msg =
           (tr @ per_record_calls (runTask_ok env) (ReceiptHandle msg) (launched tr) (accepted env rs), Inr ())
       \<and> launched (fst (processMessage env tr msg)) = launched tr + length (accepted env rs)
       \<and> deleted (fst (processMessage env tr msg)) =
           deleted tr + length (filter (\<lambda>i. runTask_ok env (launched tr + i)) [0..<length (accepted env rs)])
       \<and> ((\<forall>i<length (accepted env rs). runTask_ok env (launched tr + i)) \<longrightarrow>
            fst (processMessage env tr msg) =
              tr @ concat (map (\<lambda>(k, b). [RunTask k b, DeleteMessage (ReceiptHandle msg)]) (accepted env rs))
            \<and> deleted (fst (processMessage env tr msg)) = deleted tr + length (accepted env rs))"
proof -
  let ?new = "per_record_calls (runTask_ok env) (ReceiptHandle msg) (launched tr) (accepted env rs)"
  have run: "processMessage env tr msg = (tr @ ?new, Inr ())"
    using assms(1-5) processRecords_per_record [OF assms(6), of env msg tr]
    by (simp add: processMessage_def)
  have l: "launched (tr @ ?new) = launched tr + length (accepted env rs)"
    by (simp add: launched_append launched_per_record_calls)
  have d: "deleted (tr @ ?new) =
      deleted tr + length (filter (\<lambda>i. runTask_ok env (launched tr + i)) [0..<length (accepted env rs)])"
    by (simp add: deleted_append deleted_per_record_calls)
  have a: "(\<forall>i<length (accepted env rs). runTask_ok env (launched tr + i)) \<longrightarrow>
      tr @ ?new = tr @ concat (map (\<lambda>(k, b). [RunTask k b, DeleteMessage (ReceiptHandle msg)]) (accepted env rs))
      \<and> deleted (tr @ ?new) = deleted tr + length (accepted env rs)"
  proof
    assume all: "\<forall>i<length (accepted env rs). runTask_ok env (launched tr + i)"
    have "filter (\<lambda>i. runTask_ok env (launched tr + i)) [0..<length (accepted env rs)] =
        [0..<length (accepted env rs)]"
      using all by (simp add: filter_id_conv)
    then show "tr @ ?new = tr @ concat (map (\<lambda>(k, b). [RunTask k b, DeleteMessage (ReceiptHandle msg)]) (accepted env rs))
      \<and> deleted (tr @ ?new) = deleted tr + length (accepted env rs)"
      using per_record_calls_all_ok [OF all] d by simp
  qed
  have new: "fst (processMessage env tr msg) = tr @ ?new"
    by (simp add: run)
  show ?thesis
    unfolding new using run l d a by blast
qed

subsection \<open>Example messages\<close>

theorem test_event_deleted_once_witness:
  "processMessage demo_consumer_env [] (demo_message (Some ''test-notification'')) =
     ([DeleteMessage (Some ''rh-1'')], Inr ())
   \<and> deleted (fst (processMessage demo_consumer_env [] (demo_message (Some ''test-notification'')))) = 1
   \<and> launched (fst (processMessage demo_consumer_env [] (demo_message (Some ''test-notification'')))) = 0"
proof -
  have h1: "Body (demo_message (Some ''test-notification'')) = Some ''test-notification''"
    by (simp add: demo_message_def)
  have h2: "''test-notification'' \<noteq> []" by simp
  have h3: "JSON_parse demo_consumer_env ''test-notification'' =
      Some (JObj [(''Service'', JStr ''Amazon S3''), (''Event'', JStr ''s3:TestEvent'')])"
    by (simp add: demo_consumer_env_def)
  have h4: "map_of [(''Service'', JStr ''Amazon S3''), (''Event'', JStr ''s3:TestEvent'')] ''Service'' =
      Some (JStr ''Amazon S3'')"
    by simp
  have h5: "map_of [(''Service'', JStr ''Amazon S3''), (''Event'', JStr ''s3:TestEvent'')] ''Event'' =
      Some (JStr ''s3:TestEvent'')"
    by simp
  show ?thesis
    using test_event_deleted_once [OF h1 h2 h3 h4 h5, of "[]"]
    by (simp add: demo_message_def deleted_def launched_def)
qed

theorem malformed_body_left_on_queue_witness:
  "processMessage demo_consumer_env [] (demo_message (Some ''{not json'')) = ([], Inr ())
   \<and> consumer_main demo_consumer_env []
        [Received (Some [demo_message (Some ''{not json'')]), Received None] =
      [ReceiveMessage, ReceiveMessage]"
proof -
  have h1: "Body (demo_message (Some ''{not json'')) = Some ''{not json''"
    by (simp add: demo_message_def)
  have h2: "JSON_parse demo_consumer_env ''{not json'' = None"
    by (simp add: demo_consumer_env_def)
  show ?thesis
    using malformed_body_left_on_queue [OF h1 h2, of "[]" "[]" "[Received None]"]
    by simp
qed

theorem missing_body_left_on_queue_witness:
  "processMessage demo_consumer_env [] (demo_message None) = ([], Inr ())
   \<and> consumer_main demo_consumer_env [] [Received (Some [demo_message None]), Received None] =
      [ReceiveMessage, ReceiveMessage]"
proof -
  have h: "Body (demo_message None) = None \<or> Body (demo_message None) = Some []"
    by (simp add: demo_message_def)
  show ?thesis
    using missing_body_left_on_queue [OF h, of demo_consumer_env "[]" "[]" "[Received None]"]
    by simp
qed

lemma demo_records_shape: "\<forall>r \<in> set demo_records. is_S3EventRecord r"
  by (simp add: demo_records_def s3_record_def is_S3EventRecord_def)

lemma demo_records_accepted:
  "accepted demo_consumer_env demo_records =
     [(''videos/a.mp4'', JStr ''uploads''), (''videos/c.mov'', JStr ''uploads''),
      (''videos/d.webm'', JStr ''uploads'')]"
  by (simp add: accepted_def demo_records_def s3_record_def validateRecord_def demo_consumer_env_def
      ACCEPTABLE_FORMATS_def ascii_upper_def)

theorem delete_per_launched_record_witness:
  "fst (processMessage demo_consumer_env [] (demo_message (Some ''ingest-notification''))) =
     [RunTask ''videos/a.mp4'' (JStr ''uploads''), DeleteMessage (Some ''rh-1''),
      RunTask ''videos/c.mov'' (JStr ''uploads''), DeleteMessage (Some ''rh-1''),
      RunTask ''videos/d.webm'' (JStr ''uploads''), DeleteMessage (Some ''rh-1'')]
   \<and> deleted (fst (processMessage demo_consumer_env [] (demo_message (Some ''ingest-notification'')))) = 3
   \<and> fst (processMessage demo_consumer_env [RunTask ''x'' JNull, RunTask ''y'' JNull]
            (demo_message (Some ''ingest-notification''))) =
     [RunTask ''x'' JNull, RunTask ''y'' JNull,
      RunTask ''videos/a.mp4'' (JStr ''uploads''), DeleteMessage (Some ''rh-1''),
      RunTask ''videos/c.mov'' (JStr ''uploads''),
      RunTask ''videos/d.webm'' (JStr ''uploads''), DeleteMessage (Some ''rh-1'')]"
proof -
  let ?event = "JObj [(''Records'', JArr demo_records)]"
  have h1: "Body (demo_message (Some ''ingest-notification'')) = Some ''ingest-notification''"
    by (simp add: demo_message_def)
  have h2: "''ingest-notification'' \<noteq> []" by simp
  have h3: "JSON_parse demo_consumer_env ''ingest-notification'' = Some ?event"
    by (simp add: demo_consumer_env_def)
  have h4: "is_test_event ?event = Inr False"
    by (simp add: is_test_event_def)
  have h5: "get_prop ?event ''Records'' = Inr (JArr demo_records)"
    by simp
  have rh: "ReceiptHandle (demo_message (Some ''ingest-notification'')) = Some ''rh-1''"
    by (simp add: demo_message_def)
  have ok: "runTask_ok demo_consumer_env = (\<lambda>n. n \<noteq> 3)"
    by (simp add: demo_consumer_env_def)
  have all: "\<forall>i<length (accepted demo_consumer_env demo_records). runTask_ok demo_consumer_env (launched [] + i)"
    by (simp add: demo_records_accepted ok launched_def)
  have first: "fst (processMessage demo_consumer_env [] (demo_message (Some ''ingest-notification''))) =
      [RunTask ''videos/a.mp4'' (JStr ''uploads''), DeleteMessage (Some ''rh-1''),
       RunTask ''videos/c.mov'' (JStr ''uploads''), DeleteMessage (Some ''rh-1''),
       RunTask ''videos/d.webm'' (JStr ''uploads''), DeleteMessage (Some ''rh-1'')]
     \<and> deleted (fst (processMessage demo_consumer_env [] (demo_message (Some ''ingest-notification'')))) = 3"
    using delete_per_launched_record [OF h1 h2 h3 h4 h5 demo_records_shape, of "[]"] all
    by (simp add: demo_records_accepted rh deleted_def ok launched_def)
  have second: "fst (processMessage demo_consumer_env [RunTask ''x'' JNull, RunTask ''y'' JNull]
            (demo_message (Some ''ingest-notification''))) =
     [RunTask ''x'' JNull, RunTask ''y'' JNull,
      RunTask ''videos/a.mp4'' (JStr ''uploads''), DeleteMessage (Some ''rh-1''),
      RunTask ''videos/c.mov'' (JStr ''uploads''),
      RunTask ''videos/d.webm'' (JStr ''uploads''), DeleteMessage (Some ''rh-1'')]"
    using delete_per_launched_record [OF h1 h2 h3 h4 h5 demo_records_shape,
        of "[RunTask ''x'' JNull, RunTask ''y'' JNull]"]
    by (simp add: demo_records_accepted rh ok launched_def)
  show ?thesis using first second by blast
qed

section \<open>Segment padding in the encoder's options\<close>

subsection \<open>Counting digits\<close>

lemma length_digits_of: "length (digits_of n) = decimal_digit_count n"
proof (induction n rule: digits_of.induct)
  case (1 n)
  show ?case
  proof (cases "n < 10")
    case True
    then show ?thesis
      by (subst digits_of.simps, subst decimal_digit_count.simps) simp
  next
    case False
    then show ?thesis
      using "1.IH" by (subst digits_of.simps, subst decimal_digit_count.simps) simp
  qed
qed

lemma length_digits_of_mono:
  assumes "i \<le> n"
  shows "length (digits_of i) \<le> length (digits_of n)"
proof (cases "i = 0")
  case True
  show ?thesis
    using digits_of_nonempty [of n] by (cases "digits_of n") (simp_all add: True digits_of_0)
next
  case False
  then have ipos: "0 < i" and npos: "0 < n" using assms by simp_all
  have "(10::nat) ^ (length (digits_of i) - 1) \<le> i"
    using digits_of_bounds [OF ipos] by simp
  also have "i \<le> n" by (rule assms)
  also have "n < 10 ^ length (digits_of n)"
    using digits_of_bounds [OF npos] by simp
  finally have "(10::nat) ^ (length (digits_of i) - 1) < 10 ^ length (digits_of n)" .
  then have "length (digits_of i) - 1 < length (digits_of n)"
    by (simp add: power_strict_increasing_iff)
  then show ?thesis by simp
qed

lemma length_zero_pad: "length (digits_of i) \<le> w \<Longrightarrow> length (zero_pad w i) = w"
  by (simp add: zero_pad_def)

subsection \<open>The pattern and its expansion\<close>

lemma last_ffmpeg_options:
  "last (ffmpeg_options outputDir pad r) =
     ''-hls_segment_filename '' @ outputDir @ ''/'' @ name r @ ''_%0'' @ digits_of pad @ ''d.ts''"
  by (simp add: ffmpeg_options_def hls_segment_filename_def toString_int)

lemma parseInt_zero_flag: "parseInt (CHR ''0'' # digits_of w) = Some w"
proof -
  have all: "\<forall>c \<in> set (CHR ''0'' # digits_of w). is_digit c"
    using digits_of_all_digits [of w] by (simp add: is_digit_def)
  then have "takeWhile is_digit (CHR ''0'' # digits_of w) = CHR ''0'' # digits_of w"
    by (simp only: takeWhile_eq_all_conv)
  moreover have "digit_value (CHR ''0'') = 0"
    by (simp add: digit_value_def)
  ultimately show ?thesis
    by (simp add: parseInt_def foldl_digits_of)
qed

lemma expand_directive:
  "expand_segment_pattern (CHR ''%'' # CHR ''0'' # digits_of w @ CHR ''d'' # rest) i = zero_pad w i @ rest"
proof -
  have nd: "\<not> is_digit (CHR ''d'')" by (simp add: is_digit_def)
  have all: "\<forall>c \<in> set (CHR ''0'' # digits_of w). is_digit c"
    using digits_of_all_digits [of w] by (simp add: is_digit_def)
  have tw: "takeWhile is_digit ((CHR ''0'' # digits_of w) @ CHR ''d'' # rest) = CHR ''0'' # digits_of w"
    using all nd by (simp only: takeWhile_append2) simp
  have dw: "dropWhile is_digit ((CHR ''0'' # digits_of w) @ CHR ''d'' # rest) = CHR ''d'' # rest"
    using all nd by (simp only: dropWhile_append2) simp
  have tw': "takeWhile is_digit (CHR ''0'' # digits_of w @ CHR ''d'' # rest) = CHR ''0'' # digits_of w"
    using tw by simp
  have dw': "dropWhile is_digit (CHR ''0'' # digits_of w @ CHR ''d'' # rest) = CHR ''d'' # rest"
    using dw by simp
  show ?thesis
    by (simp only: expand_segment_pattern.simps tw' dw' Let_def parseInt_zero_flag) simp
qed

lemma expand_plain_prefix:
  "CHR ''%'' \<notin> set pre \<Longrightarrow>
   expand_segment_pattern (pre @ pat) i = pre @ expand_segment_pattern pat i"
  by (induction pre) (auto simp: Let_def)

lemma expand_hls_segment_filename:
  assumes "CHR ''%'' \<notin> set outputDir" and "CHR ''%'' \<notin> set nm"
  shows "expand_segment_pattern (hls_segment_filename outputDir nm pad) i =
           outputDir @ ''/'' @ nm @ ''_'' @ zero_pad pad i @ ''.ts''"
proof -
  have pre: "CHR ''%'' \<notin> set (outputDir @ ''/'' @ nm @ ''_'')"
    using assms by simp
  have "hls_segment_filename outputDir nm pad =
      (outputDir @ ''/'' @ nm @ ''_'') @ (CHR ''%'' # CHR ''0'' # digits_of pad @ CHR ''d'' # ''.ts'')"
    by (simp add: hls_segment_filename_def toString_int)
  then show ?thesis
    using expand_plain_prefix [OF pre, of "CHR ''%'' # CHR ''0'' # digits_of pad @ CHR ''d'' # ''.ts''" i]
    by (simp only: expand_directive) simp
qed

lemma catalog_names_plain: "r \<in> set RESOLUTIONS \<Longrightarrow> CHR ''%'' \<notin> set (name r)"
  by (auto simp: RESOLUTIONS_def)

subsection \<open>The options of the encoder calls of a run\<close>

lemma encode_options_append: "encode_options (xs @ ys) = encode_options xs @ encode_options ys"
  by (induction xs rule: encode_options.induct) simp_all

lemma encode_options_puts:
  "encode_options (map (\<lambda>file. PutObject (f file) (g file) (h file)) files) = []"
  by (induction files) simp_all

lemma encode_options_transcode:
  "encode_options (fst (transcode env KEY outputDir pad r)) = [ffmpeg_options outputDir pad r]"
  by (simp add: transcode_def uploadHLSFiles_def Let_def encode_options_puts split: option.split)

lemma transcode_all_options:
  "encode_options (fst (transcode_all env KEY outputDir pad plan)) =
     map (ffmpeg_options outputDir pad)
       (take (length (encoded (fst (transcode_all env KEY outputDir pad plan)))) plan)
   \<and> min 1 (length plan) \<le> length (encoded (fst (transcode_all env KEY outputDir pad plan)))"
proof (induction plan)
  case Nil
  then show ?case by simp
next
  case (Cons r rest)
  obtain cs ok where t: "transcode env KEY outputDir pad r = (cs, ok)"
    by (cases "transcode env KEY outputDir pad r")
  have o: "encode_options cs = [ffmpeg_options outputDir pad r]"
    using encode_options_transcode [of env KEY outputDir pad r] by (simp add: t)
  have e: "encoded cs = [outputDir @ ''/'' @ name r @ ''.m3u8'']"
    using encoded_transcode [of env KEY outputDir pad r] by (simp add: t)
  show ?case
  proof (cases ok)
    case False
    then show ?thesis by (simp add: t o e)
  next
    case True
    obtain cs' ok' where t': "transcode_all env KEY outputDir pad rest = (cs', ok')"
      by (cases "transcode_all env KEY outputDir pad rest")
    have ih: "encode_options cs' = map (ffmpeg_options outputDir pad) (take (length (encoded cs')) rest)"
      using Cons.IH by (simp add: t')
    show ?thesis
      using True by (simp add: t t' o e ih encode_options_append encoded_append)
  qed
qed

lemma run_job_options:
  assumes "mkdir_ok env"
  shows "encode_options (calls (run_job env KEY p plan)) =
           map (ffmpeg_options ''hls_output'' (padding (duration p)))
             (take (length (encoded (calls (run_job env KEY p plan)))) plan)
       \<and> min 1 (length plan) \<le> length (encoded (calls (run_job env KEY p plan)))"
proof -
  obtain cs ok where t: "transcode_all env KEY ''hls_output'' (padding (duration p)) plan = (cs, ok)"
    by (cases "transcode_all env KEY ''hls_output'' (padding (duration p)) plan")
  have c: "encode_options cs = map (ffmpeg_options ''hls_output'' (padding (duration p))) (take (length (encoded cs)) plan)
      \<and> min 1 (length plan) \<le> length (encoded cs)"
    using transcode_all_options [of env KEY "''hls_output''" "padding (duration p)" plan]
    by (simp add: t)
  have calls: "encode_options (calls (run_job env KEY p plan)) = encode_options cs
      \<and> encoded (calls (run_job env KEY p plan)) = encoded cs"
    using assms
    by (cases ok) (simp_all add: run_job_def Let_def t encode_options_append encoded_append)
  show ?thesis using c calls by simp
qed

text \<open>
  Claim C8. Let \<open>d\<close> be a probed duration, a non-negative number of seconds whose
  segment estimate \<open>ceil(d / 10)\<close> is below \<open>10^21\<close>, the range in which the estimate is
  printed as plain decimal digits. The padding width is the number of decimal digits of
  the estimate: it is at least 1 and is the width \<open>p\<close> with
  \<open>10^(p-1) \<le> max 1 (ceil(d / 10)) < 10^p\<close>. This width is the one every encoder call of
  the job receives: each call carries the options of its rendition, whose last entry is
  the segment pattern \<open>hls_output/{name}_%0{p}d.ts\<close>, and the encoder is started whenever
  the plan is not empty. Expanding the pattern of a catalog rendition writes the index
  with zeros on the left, to exactly \<open>p\<close> characters for every index up to the
  estimate. A duration of 95 gives an estimate of 10 segments and width 2, so that index
  0 is rendered as \<open>00\<close>.
\<close>

theorem segment_padding_width:
  assumes "0 \<le> d" and "\<lceil>d / 10\<rceil> < 10 ^ 21"
    and "fetch_ok env" and "probe_result env = Some p" and "mkdir_ok env"
    and "duration p = d"
    and "plan = getValidResolutions (probe_width p) (probe_height p)"
  shows "estimatedSegments d = \<lceil>d / 10\<rceil>
       \<and> padding d = decimal_digit_count (nat \<lceil>d / 10\<rceil>)
       \<and> 0 < padding d
       \<and> 10 ^ (padding d - 1) \<le> max 1 (estimatedSegments d)
       \<and> estimatedSegments d < 10 ^ padding d
       \<and> (\<forall>r. last (ffmpeg_options ''hls_output'' (padding d) r) =
                ''-hls_segment_filename hls_output/'' @ name r @ ''_%0'' @ digits_of (padding d) @ ''d.ts'')
       \<and> encode_options (calls (transcoder_main env KEY)) =
           map (ffmpeg_options ''hls_output'' (padding d))
             (take (length (encoded (calls (transcoder_main env KEY)))) plan)
       \<and> min 1 (length plan) \<le> length (encoded (calls (transcoder_main env KEY)))
       \<and> (\<forall>r \<in> set RESOLUTIONS. \<forall>i.
             expand_segment_pattern (hls_segment_filename ''hls_output'' (name r) (padding d)) i =
               ''hls_output/'' @ name r @ ''_'' @ zero_pad (padding d) i @ ''.ts'')
       \<and> (\<forall>i. int i \<le> estimatedSegments d \<longrightarrow> length (zero_pad (padding d) i) = padding d)
       \<and> estimatedSegments 95 = 10 \<and> padding 95 = 2
       \<and> zero_pad (padding 95) 0 = ''00''
       \<and> expand_segment_pattern (hls_segment_filename ''hls_output'' ''144p'' (padding 95)) 0
           = ''hls_output/144p_00.ts''"
proof -
  define n where "n = nat (estimatedSegments d)"
  have n: "estimatedSegments d = int n"
    using estimatedSegments_nonneg [OF assms(1)] by (simp add: n_def)
  have p: "padding d = length (digits_of n)"
    by (simp add: padding_digits [OF assms(1)] n_def)
  have c1: "estimatedSegments d = \<lceil>d / 10\<rceil>"
    by (simp add: estimatedSegments_def)
  have c2: "padding d = decimal_digit_count (nat \<lceil>d / 10\<rceil>)"
    by (simp add: p n_def length_digits_of estimatedSegments_def)
  have c3: "0 < padding d"
    using digits_of_nonempty [of n] by (simp add: p)
  have c45: "10 ^ (padding d - 1) \<le> max 1 (estimatedSegments d) \<and> estimatedSegments d < 10 ^ padding d"
  proof (cases "n = 0")
    case True
    then show ?thesis by (simp add: p n digits_of_0)
  next
    case False
    then have "0 < n" by simp
    from digits_of_bounds [OF this]
    have "int (10 ^ (length (digits_of n) - 1)) \<le> int n \<and> int n < int (10 ^ length (digits_of n))"
      by (simp only: of_nat_le_iff of_nat_less_iff)
    then show ?thesis using False by (simp add: p n)
  qed
  have c6: "\<forall>r. last (ffmpeg_options ''hls_output'' (padding d) r) =
      ''-hls_segment_filename hls_output/'' @ name r @ ''_%0'' @ digits_of (padding d) @ ''d.ts''"
    by (simp add: last_ffmpeg_options)
  have main: "transcoder_main env KEY = run_job env KEY p plan"
    using assms(3,4,7) by (simp add: transcoder_main_def)
  have c78: "encode_options (calls (transcoder_main env KEY)) =
        map (ffmpeg_options ''hls_output'' (padding d))
          (take (length (encoded (calls (transcoder_main env KEY)))) plan)
      \<and> min 1 (length plan) \<le> length (encoded (calls (transcoder_main env KEY)))"
    using run_job_options [OF assms(5), of KEY p plan] assms(6) by (simp add: main)
  have c9: "\<forall>r \<in> set RESOLUTIONS. \<forall>i.
      expand_segment_pattern (hls_segment_filename ''hls_output'' (name r) (padding d)) i =
        ''hls_output/'' @ name r @ ''_'' @ zero_pad (padding d) i @ ''.ts''"
  proof (intro ballI allI)
    fix r i assume "r \<in> set RESOLUTIONS"
    then have nm: "CHR ''%'' \<notin> set (name r)" by (rule catalog_names_plain)
    have od: "CHR ''%'' \<notin> set ''hls_output''" by simp
    show "expand_segment_pattern (hls_segment_filename ''hls_output'' (name r) (padding d)) i =
        ''hls_output/'' @ name r @ ''_'' @ zero_pad (padding d) i @ ''.ts''"
      using expand_hls_segment_filename [OF od nm, of "padding d" i] by simp
  qed
  have c10: "\<forall>i. int i \<le> estimatedSegments d \<longrightarrow> length (zero_pad (padding d) i) = padding d"
  proof (intro allI impI)
    fix i assume "int i \<le> estimatedSegments d"
    then have "i \<le> n" by (simp add: n)
    then have "length (digits_of i) \<le> padding d"
      using length_digits_of_mono [of i n] by (simp add: p)
    then show "length (zero_pad (padding d) i) = padding d" by (rule length_zero_pad)
  qed
  have zp: "zero_pad (padding 95) 0 = ''00''"
    by (simp add: padding_95 zero_pad_def digits_of_0)
  have ex: "expand_segment_pattern (hls_segment_filename ''hls_output'' ''144p'' (padding 95)) 0
      = ''hls_output/144p_00.ts''"
    by (simp add: padding_95 expand_segment_pattern_95)
  show ?thesis
    using c1 c2 c3 c45 c6 c78 c9 c10 zp ex estimatedSegments_95 padding_95 by blast
qed

lemma demo_run_encoded:
  "encoded (calls (transcoder_main demo_env ''videos/demo.mp4'')) =
     [''hls_output/144p.m3u8'', ''hls_output/240p.m3u8'']"
proof -
  let ?plan = "getValidResolutions (probe_width demo_probe) (probe_height demo_probe)"
  have plan: "?plan = getValidResolutions 640 360" by (simp add: demo_probe_def)
  have h3: "mkdir_ok demo_env" by (simp add: demo_env_def)
  have h5: "1 < length ?plan" by (simp add: plan plan3)
  have ok0: "rendition_ok demo_env ''videos/demo.mp4'' (?plan ! 0)"
    by (simp add: plan plan3 rendition_ok_def demo_env_def list_all_iff)
  have h6: "\<forall>j<1. rendition_ok demo_env ''videos/demo.mp4'' (?plan ! j)"
    using ok0 by simp
  have h7: "\<not> rendition_ok demo_env ''videos/demo.mp4'' (?plan ! 1)"
    by (simp add: plan plan3 rendition_ok_def demo_env_def)
  have "transcoder_main demo_env ''videos/demo.mp4'' = run_job demo_env ''videos/demo.mp4'' demo_probe ?plan"
    by (simp add: transcoder_main_def demo_env_def)
  then show ?thesis
    using run_job_fails [OF h3 h5 h6 h7, where p = demo_probe]
    by (simp add: plan plan3 encoded_append encoded_transcode)
qed

theorem segment_padding_width_witness:
  "estimatedSegments 95 = 10
   \<and> padding 95 = decimal_digit_count 10
   \<and> padding 95 = 2
   \<and> (10::int) ^ (padding 95 - 1) \<le> max 1 (estimatedSegments 95)
   \<and> estimatedSegments 95 < 10 ^ padding 95
   \<and> encode_options (calls (transcoder_main demo_env ''videos/demo.mp4'')) =
       [ffmpeg_options ''hls_output'' 2 \<lparr>name = ''144p'', width = 256, height = 144, bitrate = ''100k''\<rparr>,
        ffmpeg_options ''hls_output'' 2 \<lparr>name = ''240p'', width = 426, height = 240, bitrate = ''300k''\<rparr>]
   \<and> last (ffmpeg_options ''hls_output'' 2 \<lparr>name = ''144p'', width = 256, height = 144, bitrate = ''100k''\<rparr>) =
       ''-hls_segment_filename hls_output/144p_%02d.ts''
   \<and> expand_segment_pattern
        (hls_segment_filename ''hls_output'' ''144p'' 2) 7 = ''hls_output/144p_07.ts''
   \<and> length (zero_pad 2 10) = 2"
proof -
  let ?r = "\<lparr>name = ''144p'', width = 256, height = 144, bitrate = ''100k''\<rparr>"
  have h1: "(0::real) \<le> 95" by simp
  have h2: "\<lceil>(95::real) / 10\<rceil> < 10 ^ 21" by simp
  have h3: "fetch_ok demo_env" by (simp add: demo_env_def)
  have h4: "probe_result demo_env = Some demo_probe" by (simp add: demo_env_def)
  have h5: "mkdir_ok demo_env" by (simp add: demo_env_def)
  have h6: "duration demo_probe = 95" by (simp add: demo_probe_def)
  have plan: "getValidResolutions (probe_width demo_probe) (probe_height demo_probe) =
      getValidResolutions 640 360"
    by (simp add: demo_probe_def)
  have in_cat: "?r \<in> set RESOLUTIONS" by (simp add: RESOLUTIONS_def)
  have two: "digits_of 2 = ''2''" by (simp add: digits_of.simps digit_char_def)
  have seven: "zero_pad 2 7 = ''07''" by (simp add: zero_pad_def digits_of.simps digit_char_def)
  have ten: "int 10 \<le> estimatedSegments 95" by (simp add: estimatedSegments_95)
  note inst = segment_padding_width [OF h1 h2 h3 h4 h5 h6 refl, of "''videos/demo.mp4''"]
  have k: "nat \<lceil>(95::real) / 10\<rceil> = 10" by simp
  have a1: "padding 95 = decimal_digit_count (nat \<lceil>(95::real) / 10\<rceil>)"
    using inst by blast
  have p2: "padding 95 = 2" by (rule padding_95)
  have a: "estimatedSegments 95 = 10 \<and> padding 95 = decimal_digit_count 10 \<and> padding 95 = 2
      \<and> (10::int) ^ (padding 95 - 1) \<le> max 1 (estimatedSegments 95)
      \<and> estimatedSegments 95 < 10 ^ padding 95"
    using a1 by (simp add: k estimatedSegments_95 padding_95)
  have b0: "encode_options (calls (transcoder_main demo_env ''videos/demo.mp4'')) =
      map (ffmpeg_options ''hls_output'' (padding 95))
        (take (length (encoded (calls (transcoder_main demo_env ''videos/demo.mp4''))))
          (getValidResolutions (probe_width demo_probe) (probe_height demo_probe)))"
    using inst by blast
  have b: "encode_options (calls (transcoder_main demo_env ''videos/demo.mp4'')) =
      [ffmpeg_options ''hls_output'' 2 ?r,
       ffmpeg_options ''hls_output'' 2 \<lparr>name = ''240p'', width = 426, height = 240, bitrate = ''300k''\<rparr>]"
    by (simp add: b0 p2 demo_run_encoded plan plan3)
  have c0: "\<forall>r. last (ffmpeg_options ''hls_output'' (padding 95) r) =
      ''-hls_segment_filename hls_output/'' @ name r @ ''_%0'' @ digits_of (padding 95) @ ''d.ts''"
    using inst by blast
  have c: "last (ffmpeg_options ''hls_output'' 2 ?r) = ''-hls_segment_filename hls_output/144p_%02d.ts''"
    using c0 [rule_format, of ?r] by (simp add: p2 two)
  have "\<forall>r \<in> set RESOLUTIONS. \<forall>i.
      expand_segment_pattern (hls_segment_filename ''hls_output'' (name r) (padding 95)) i =
        ''hls_output/'' @ name r @ ''_'' @ zero_pad (padding 95) i @ ''.ts''"
    using inst by blast
  then have d: "expand_segment_pattern (hls_segment_filename ''hls_output'' ''144p'' 2) 7 = ''hls_output/144p_07.ts''"
    using in_cat by (auto simp: p2 seven)
  have "\<forall>i. int i \<le> estimatedSegments 95 \<longrightarrow> length (zero_pad (padding 95) i) = padding 95"
    using inst by blast
  then have e: "length (zero_pad 2 10) = 2"
    using ten by (auto simp: p2)
  show ?thesis using a b c d e by blast
qed

end
